theory Spec2Isabelle
  imports Main "HOL-Library.Sublist" "HOL-Library.AList"
begin

section \<open>Python text primitives\<close>

text \<open>
  A Python \<open>str\<close> is modelled as a \<open>string\<close> whose characters are the code points
  below 256. \<open>is_space\<close> is \<open>str.isspace\<close> on one character (also the class \<open>\s\<close> of
  \<open>re\<close>), \<open>is_linebreak\<close> the line boundaries of \<open>str.splitlines\<close>, both restricted
  to that range.
\<close>

definition is_space :: "char \<Rightarrow> bool" where
  "is_space c \<longleftrightarrow> c \<in> set [CHR 0x09, CHR 0x0A, CHR 0x0B, CHR 0x0C, CHR 0x0D,
     CHR 0x1C, CHR 0x1D, CHR 0x1E, CHR 0x1F, CHR 0x20, CHR 0x85, CHR 0xA0]"

definition is_linebreak :: "char \<Rightarrow> bool" where
  "is_linebreak c \<longleftrightarrow> c \<in> set [CHR 0x0A, CHR 0x0B, CHR 0x0C, CHR 0x0D,
     CHR 0x1C, CHR 0x1D, CHR 0x1E, CHR 0x85]"

definition lstrip :: "string \<Rightarrow> string" where
  "lstrip s = dropWhile is_space s"

definition rstrip :: "string \<Rightarrow> string" where
  "rstrip s = rev (dropWhile is_space (rev s))"

definition strip :: "string \<Rightarrow> string" where
  "strip s = rstrip (lstrip s)"

text \<open>
  \<open>str.splitlines()\<close>: the text is cut at every line boundary, \<open>\r\n\<close> counting as
  one, and a boundary at the very end opens no further line. The first argument is the
  line collected so far.
\<close>

fun splitlines_from :: "string \<Rightarrow> string \<Rightarrow> string list" where
  "splitlines_from cur [] = (if cur = [] then [] else [cur])"
| "splitlines_from cur [c] = (if is_linebreak c then [cur] else [cur @ [c]])"
| "splitlines_from cur (c # d # cs) =
     (if c = CHR 0x0D \<and> d = CHR 0x0A then cur # splitlines_from [] cs
      else if is_linebreak c then cur # splitlines_from [] (d # cs)
      else splitlines_from (cur @ [c]) (d # cs))"

definition splitlines :: "string \<Rightarrow> string list" where
  "splitlines s = splitlines_from [] s"

text \<open>\<open>s.split(c)\<close> for a separator of one character: never an empty list.\<close>

fun split_chr :: "char \<Rightarrow> string \<Rightarrow> string list" where
  "split_chr c [] = [[]]"
| "split_chr c (x # xs) =
     (if x = c then [] # split_chr c xs
      else (case split_chr c xs of [] \<Rightarrow> [[x]] | r # rs \<Rightarrow> (x # r) # rs))"

text \<open>The slice \<open>xs[1:-1]\<close>.\<close>

definition inner :: "'a list \<Rightarrow> 'a list" where
  "inner xs = butlast (tl xs)"

text \<open>\<open>s.find(p)\<close>, with \<open>None\<close> for \<open>-1\<close>; \<open>p in s\<close> is \<open>sublist p s\<close>.\<close>

fun find_sub :: "string \<Rightarrow> string \<Rightarrow> nat option" where
  "find_sub p [] = (if p = [] then Some 0 else None)"
| "find_sub p (x # xs) =
     (if prefix p (x # xs) then Some 0 else map_option Suc (find_sub p xs))"

text \<open>The number of places at which \<open>p\<close> occurs in a text (\<open>s.count(p)\<close> when no two
  occurrences of \<open>p\<close> can overlap).\<close>

fun count_sub :: "string \<Rightarrow> string \<Rightarrow> nat" where
  "count_sub p [] = (if p = [] then 1 else 0)"
| "count_sub p (x # xs) = (if prefix p (x # xs) then 1 else 0) + count_sub p xs"

text \<open>\<open>s.split(sep, 1)[-1]\<close>: what follows the first \<open>sep\<close>, all of \<open>s\<close> without one.\<close>

definition after_first :: "string \<Rightarrow> string \<Rightarrow> string" where
  "after_first sep s = (case find_sub sep s of None \<Rightarrow> s | Some i \<Rightarrow> drop (i + length sep) s)"

fun join :: "string \<Rightarrow> string list \<Rightarrow> string" where
  "join sep [] = []"
| "join sep [x] = x"
| "join sep (x # y # ys) = x @ sep @ join sep (y # ys)"

text \<open>\<open>str(n)\<close> for an integer.\<close>

function show_nat :: "nat \<Rightarrow> string" where
  "show_nat n = (if n < 10 then [char_of (48 + n)] else show_nat (n div 10) @ [char_of (48 + n mod 10)])"
  by pat_completeness auto
termination
  by (relation "measure id") auto

definition show_int :: "int \<Rightarrow> string" where
  "show_int i = (if i < 0 then CHR ''-'' # show_nat (nat (- i)) else show_nat (nat i))"

section \<open>Python values, dictionaries and errors\<close>

text \<open>
  The native values a YAML document loads to. A float is carried as the text \<open>str\<close>
  prints for it; \<open>PyOther\<close> stands for every other native object (a date, a set).
  A \<open>dict\<close> is an association list in insertion order whose keys are strings.
\<close>

datatype pyvalue =
    PyNone
  | PyBool bool
  | PyInt int
  | PyFloat string
  | PyStr string
  | PyList "pyvalue list"
  | PyDict "(string \<times> pyvalue) list"
  | PyOther

text \<open>
  \<open>ValidationError\<close> is pydantic's, a subclass of \<open>ValueError\<close>: it is what a
  constructor raises when a field has the wrong type or a validator raises \<open>ValueError\<close>.
\<close>

datatype error = ValueError | ValidationError | AssertionError | IndexError
  | TypeError | AttributeError | YAMLError

definition is_ValueError :: "error \<Rightarrow> bool" where
  "is_ValueError e \<longleftrightarrow> e = ValueError \<or> e = ValidationError"

text \<open>A dict comprehension or \<open>d |= e\<close>: the entries stored one after the other.\<close>

definition dict_update :: "('k \<times> 'v) list \<Rightarrow> ('k \<times> 'v) list \<Rightarrow> ('k \<times> 'v) list" where
  "dict_update d kvs = foldl (\<lambda>acc (k, v). AList.update k v acc) d kvs"

definition dict_of :: "('k \<times> 'v) list \<Rightarrow> ('k \<times> 'v) list" where
  "dict_of kvs = dict_update [] kvs"

text \<open>The results of a loop that stops at the first exception.\<close>

fun collect :: "('e + 'a) list \<Rightarrow> 'e + 'a list" where
  "collect [] = Inr []"
| "collect (r # rs) =
     (case r of Inl e \<Rightarrow> Inl e
      | Inr x \<Rightarrow> (case collect rs of Inl e \<Rightarrow> Inl e | Inr xs \<Rightarrow> Inr (x # xs)))"

section \<open>utils.py\<close>

fun native_to_sql :: "pyvalue \<Rightarrow> error + string"
  and native_to_sql_items :: "pyvalue list \<Rightarrow> error + string list" where
  "native_to_sql (PyStr s) = Inr ([CHR 0x27] @ s @ [CHR 0x27])"
| "native_to_sql (PyInt i) = Inr (show_int i)"
| "native_to_sql (PyBool b) = Inr (if b then ''True'' else ''False'')"
| "native_to_sql (PyFloat r) = Inr r"
| "native_to_sql PyNone = Inr ''null''"
| "native_to_sql (PyList xs) =
     (case native_to_sql_items xs of Inl e \<Rightarrow> Inl e
      | Inr ys \<Rightarrow> Inr (''['' @ join '', '' ys @ '']''))"
| "native_to_sql (PyDict kvs) = Inl TypeError"
| "native_to_sql PyOther = Inl TypeError"
| "native_to_sql_items [] = Inr []"
| "native_to_sql_items (x # xs) =
     (case native_to_sql x of Inl e \<Rightarrow> Inl e
      | Inr y \<Rightarrow> (case native_to_sql_items xs of Inl e \<Rightarrow> Inl e | Inr ys \<Rightarrow> Inr (y # ys)))"

text \<open>\<open>native_to_sql_typedef(type(v))\<close>.\<close>

fun native_to_sql_typedef :: "pyvalue \<Rightarrow> error + string" where
  "native_to_sql_typedef (PyStr s) = Inr ''string''"
| "native_to_sql_typedef (PyInt i) = Inr ''int''"
| "native_to_sql_typedef (PyFloat r) = Inr ''float''"
| "native_to_sql_typedef (PyList xs) = Inr ''array''"
| "native_to_sql_typedef (PyBool b) = Inr ''boolean''"
| "native_to_sql_typedef PyNone = Inr ''null''"
| "native_to_sql_typedef (PyDict kvs) = Inl TypeError"
| "native_to_sql_typedef PyOther = Inl TypeError"

section \<open>model.py: YAMLTable\<close>

type_synonym row = "(string \<times> pyvalue) list"

record YAMLTable =
  rows :: "row list"
  columns :: "(string \<times> string) list"

definition validate_columns :: "YAMLTable \<Rightarrow> error + YAMLTable" where
  "validate_columns t =
     (if columns t = [] then Inl ValueError
      else if list_ex (\<lambda>r. set (map fst r) \<noteq> set (map fst (columns t))) (rows t) then Inl ValueError
      else Inr t)"

text \<open>
  The constructor \<open>YAMLTable(rows=..., columns=...)\<close>: \<open>columns\<close> must be a dict
  (\<open>None\<close> is refused), then the validator runs.
\<close>

definition YAMLTable_new :: "row list \<Rightarrow> (string \<times> string) list option \<Rightarrow> error + YAMLTable" where
  "YAMLTable_new rs cs =
     (case cs of None \<Rightarrow> Inl ValidationError
      | Some c \<Rightarrow> (case validate_columns \<lparr>rows = rs, columns = c\<rparr> of
                    Inl e \<Rightarrow> Inl ValidationError | Inr t \<Rightarrow> Inr t))"

text \<open>
  The rows of \<open>from_string\<close>. \<open>zip(columns, values)\<close> draws a cell only while a column
  is left, so the YAML loader (a parameter: \<open>None\<close> is its \<open>YAMLError\<close>) sees the
  first \<open>len(columns)\<close> cells.
\<close>

fun parse_rows :: "(string \<Rightarrow> pyvalue option) \<Rightarrow> string list \<Rightarrow> string list \<Rightarrow> error + row list" where
  "parse_rows safe_load cols [] = Inr []"
| "parse_rows safe_load cols (line # ls) =
     (if strip line = [] then parse_rows safe_load cols ls
      else (case those (map (\<lambda>cell. safe_load (strip cell))
                         (take (length cols) (inner (split_chr CHR ''|'' line)))) of
              None \<Rightarrow> Inl YAMLError
            | Some vals \<Rightarrow>
                (case parse_rows safe_load cols ls of Inl e \<Rightarrow> Inl e
                 | Inr rs \<Rightarrow> Inr (dict_of (zip cols vals) # rs))))"

definition infer_schema :: "row \<Rightarrow> error + (string \<times> string) list" where
  "infer_schema r =
     collect (map (\<lambda>(col, val). case native_to_sql_typedef val of
                                   Inl e \<Rightarrow> Inl e | Inr t \<Rightarrow> Inr (col, t)) r)"

definition from_string ::
  "(string \<Rightarrow> pyvalue option) \<Rightarrow> string \<Rightarrow> (string \<times> string) list option \<Rightarrow> error + YAMLTable" where
  "from_string safe_load table_str schema =
     (let lines = splitlines (strip table_str) in
      if lines = [] then Inl ValueError
      else
        let header = strip (hd lines);
            cols = map strip (inner (split_chr CHR ''|'' header));
            annotations = filter (\<lambda>(k, v). v \<noteq> [])
              (dict_of (map (\<lambda>col. (col, if \<not> sublist ''::'' col then []
                                          else strip (after_first ''::'' col))) cols))
        in
          if length lines < 2 then Inl IndexError
          else if \<not> list_all (\<lambda>c. c \<in> set ''|- '') (strip (lines ! 1)) then Inl ValueError
          else (case parse_rows safe_load cols (drop 2 lines) of
                  Inl e \<Rightarrow> Inl e
                | Inr rs \<Rightarrow>
                    (case (case schema of
                             Some s \<Rightarrow> Inr s
                           | None \<Rightarrow> (if rs \<noteq> [] then infer_schema (hd rs)
                                      else Inr (dict_of (map (\<lambda>col. (col, ''string'')) cols)))) of
                       Inl e \<Rightarrow> Inl e
                     | Inr s \<Rightarrow> YAMLTable_new rs (Some (dict_update s annotations)))))"

text \<open>One \<open>select\<close> of \<open>as_unioned_selects\<close>, for one row.\<close>

definition sql_values :: "row \<Rightarrow> error + (string \<times> string) list" where
  "sql_values r =
     collect (map (\<lambda>(key, val). case native_to_sql val of
                                   Inl e \<Rightarrow> Inl e | Inr v \<Rightarrow> Inr (key, v)) r)"

definition cast_alias :: "(string \<times> string) \<times> string \<Rightarrow> string" where
  "cast_alias = (\<lambda>((key, val), typ). ''cast('' @ val @ '' as '' @ typ @ '') as '' @ key)"

definition select_of :: "(string \<times> string) list \<Rightarrow> row \<Rightarrow> error + string" where
  "select_of cols r =
     (case sql_values r of Inl e \<Rightarrow> Inl e
      | Inr svs \<Rightarrow> Inr (''select '' @ join '', '' (map cast_alias (zip svs (map snd cols)))))"

definition as_unioned_selects :: "YAMLTable \<Rightarrow> error + string" where
  "as_unioned_selects t =
     (if rows t \<noteq> [] then
        (case collect (map (select_of (columns t)) (rows t)) of
           Inl e \<Rightarrow> Inl e
         | Inr selects \<Rightarrow> Inr (join (CHR 0x0A # ''union all'' @ [CHR 0x0A]) selects))
      else
        (case native_to_sql PyNone of
           Inl e \<Rightarrow> Inl e
         | Inr nul \<Rightarrow>
             Inr (''select ''
                  @ join '', '' (map (\<lambda>(col, typ). ''cast('' @ nul @ '' as '' @ typ @ '') as '' @ col)
                                     (columns t))
                  @ CHR 0x0A # ''where false'')))"

section \<open>Regular expressions\<close>

text \<open>
  The patterns of \<open>model.py\<close> are sequences of one-character classes, each taken once
  or under \<open>*\<close>, \<open>+\<close> or \<open>+?\<close>, and \<open>$\<close>. \<open>rmatch\<close> is the backtracking search of
  \<open>re.match\<close> for such a sequence: a greedy repetition tries the longer run first, a
  lazy one the shorter. It returns the text each item took, and what is left of the
  input.
\<close>

datatype cls = Lit char | LitI char | Space | AnyChar | NotNewline | Ident

definition ascii_lower :: "char \<Rightarrow> char" where
  "ascii_lower c =
     (if 65 \<le> (of_char c :: nat) \<and> (of_char c :: nat) \<le> 90 then char_of (of_char c + 32 :: nat) else c)"

fun cls_match :: "cls \<Rightarrow> char \<Rightarrow> bool" where
  "cls_match (Lit a) c = (c = a)"
| "cls_match (LitI a) c = (ascii_lower c = a)"
| "cls_match Space c = is_space c"
| "cls_match AnyChar c = True"
| "cls_match NotNewline c = (c \<noteq> CHR 0x0A)"
| "cls_match Ident c =
     (c \<in> set ''ABCDEFGHIJKLMNOPQRSTUVWXYZabcdefghijklmnopqrstuvwxyz0123456789_.-'')"

datatype item = One cls | Star cls | Plus cls | PlusLazy cls | Eos

type_synonym rmatch_result = "(string list \<times> string) option"

definition took_nothing :: "rmatch_result \<Rightarrow> rmatch_result" where
  "took_nothing r = map_option (\<lambda>(gs, rest). ([] # gs, rest)) r"

definition took_one :: "char \<Rightarrow> rmatch_result \<Rightarrow> rmatch_result" where
  "took_one x r = map_option (\<lambda>(gs, rest). ([x] # gs, rest)) r"

definition took_more :: "char \<Rightarrow> rmatch_result \<Rightarrow> rmatch_result" where
  "took_more x r = (case r of Some (g # gs, rest) \<Rightarrow> Some ((x # g) # gs, rest) | _ \<Rightarrow> None)"

fun rmatch :: "item list \<Rightarrow> string \<Rightarrow> rmatch_result" where
  "rmatch [] s = Some ([], s)"
| "rmatch (Eos # r) s =
     (if s = [] \<or> s = [CHR 0x0A] then took_nothing (rmatch r s) else None)"
| "rmatch (One c # r) [] = None"
| "rmatch (One c # r) (x # xs) =
     (if cls_match c x then took_one x (rmatch r xs) else None)"
| "rmatch (Star c # r) [] = took_nothing (rmatch r [])"
| "rmatch (Star c # r) (x # xs) =
     (if cls_match c x then
        (case took_more x (rmatch (Star c # r) xs) of
           Some m \<Rightarrow> Some m
         | None \<Rightarrow> took_nothing (rmatch r (x # xs)))
      else took_nothing (rmatch r (x # xs)))"
| "rmatch (Plus c # r) [] = None"
| "rmatch (Plus c # r) (x # xs) =
     (if cls_match c x then took_more x (rmatch (Star c # r) xs) else None)"
| "rmatch (PlusLazy c # r) [] = None"
| "rmatch (PlusLazy c # r) (x # xs) =
     (if cls_match c x then
        (case took_one x (rmatch r xs) of
           Some m \<Rightarrow> Some m
         | None \<Rightarrow> took_more x (rmatch (PlusLazy c # r) xs))
      else None)"

definition lits :: "string \<Rightarrow> item list" where
  "lits s = map (\<lambda>c. One (Lit c)) s"

text \<open>
  \<^verbatim>\<open>^sql\-unit\.(?P<type>.+?) \"(?P<identifier>[A-Za-z0-9_.-]+)\"$\<close>:
  the group \<open>type\<close> is item 9, \<open>identifier\<close> item 12.
\<close>

definition SQLUNIT_IDENTIFIER_PATTERN :: "item list" where
  "SQLUNIT_IDENTIFIER_PATTERN =
     lits ''sql-unit.'' @ [PlusLazy NotNewline, One (Lit CHR '' ''), One (Lit CHR 0x22),
       Plus Ident, One (Lit CHR 0x22), Eos]"

definition match_identifier :: "string \<Rightarrow> (string \<times> string) option" where
  "match_identifier key =
     map_option (\<lambda>(gs, rest). (gs ! 9, gs ! 12)) (rmatch SQLUNIT_IDENTIFIER_PATTERN key)"

text \<open>\<^verbatim>\<open>^given \"(?P<name>[A-Za-z0-9_.-]+)\"$\<close>: the group \<open>name\<close> is item 7.\<close>

definition SQLUNIT_GIVEN_PATTERN :: "item list" where
  "SQLUNIT_GIVEN_PATTERN =
     lits ''given '' @ [One (Lit CHR 0x22), Plus Ident, One (Lit CHR 0x22), Eos]"

definition match_given :: "string \<Rightarrow> string option" where
  "match_given key = map_option (\<lambda>(gs, rest). gs ! 7) (rmatch SQLUNIT_GIVEN_PATTERN key)"

text \<open>\<^verbatim>\<open>^\s*(with)\s+.+?\s+as\s+\(.+?\)\<close> with \<open>IGNORECASE | DOTALL\<close>.\<close>

definition leading_with_pattern :: "item list" where
  "leading_with_pattern =
     [Star Space, One (LitI CHR ''w''), One (LitI CHR ''i''), One (LitI CHR ''t''),
      One (LitI CHR ''h''), Plus Space, PlusLazy AnyChar, Plus Space,
      One (LitI CHR ''a''), One (LitI CHR ''s''), Plus Space, One (Lit CHR ''(''),
      PlusLazy AnyChar, One (Lit CHR '')'')]"

section \<open>annotations.py\<close>

text \<open>\<open>s.find(p, start)\<close>.\<close>

definition find_from :: "string \<Rightarrow> string \<Rightarrow> nat \<Rightarrow> nat option" where
  "find_from p s start = map_option (\<lambda>j. j + start) (find_sub p (drop start s))"

text \<open>\<open>s.replace(old, new)\<close> for a non-empty \<open>old\<close>.\<close>

function replace_all :: "string \<Rightarrow> string \<Rightarrow> string \<Rightarrow> string" where
  "replace_all old new [] = []"
| "replace_all old new (x # xs) =
     (if old \<noteq> [] \<and> prefix old (x # xs)
      then new @ replace_all old new (drop (length old) (x # xs))
      else x # replace_all old new xs)"
  by pat_completeness auto
termination
  by (relation "measure (\<lambda>(old, new, s). length s)") auto

text \<open>The scanning loop of \<open>get_comments\<close>; the second argument is \<open>comment_doc\<close>.\<close>

function scan_comments :: "string \<Rightarrow> string \<Rightarrow> string" where
  "scan_comments template_str comment_doc =
     (case find_sub ''/*'' template_str of
        None \<Rightarrow> comment_doc
      | Some i \<Rightarrow>
          (case find_from ''*/'' template_str (i + 2) of
             None \<Rightarrow> comment_doc
           | Some e \<Rightarrow>
               (let comment = take (e - (i + 2)) (drop (i + 2) template_str) in
                scan_comments (drop (e + 2) template_str)
                  (if sublist ''# sql-unit'' comment \<and> \<not> sublist ''# sql-unit.disabled'' comment
                   then comment_doc @ replace_all ''# sql-unit'' [] comment @ [CHR 0x0A]
                   else comment_doc))))"
  by pat_completeness auto
termination
proof (relation "measure (\<lambda>(s, d). length s)")
  show "wf (measure (\<lambda>(s, d). length s))" by simp
next
  fix template_str comment_doc :: string and i e x
  assume "find_sub ''/*'' template_str = Some i"
  then have "template_str \<noteq> []" by (cases template_str) auto
  then show "((drop (e + 2) template_str,
      if sublist ''# sql-unit'' x \<and> \<not> sublist ''# sql-unit.disabled'' x
      then comment_doc @ replace_all ''# sql-unit'' [] x @ [CHR 0x0A] else comment_doc),
     template_str, comment_doc) \<in> measure (\<lambda>(s, d). length s)"
    by (cases template_str) auto
qed

text \<open>Lines 22 to 31 of \<open>get_comments\<close>: the indentation is normalised.\<close>

definition normalize_indentation :: "string \<Rightarrow> string" where
  "normalize_indentation comment_doc =
     (let lines = splitlines comment_doc;
          nonempty_lines = filter (\<lambda>line. strip line \<noteq> []) lines
      in if nonempty_lines = [] then []
         else
           let min_indent = min_list (map (\<lambda>line. length line - length (lstrip line)) nonempty_lines);
               normalized = join [CHR 0x0A] (map (drop min_indent) nonempty_lines)
           in join [CHR 0x0A] (map rstrip (splitlines normalized)))"

definition get_comments :: "string \<Rightarrow> string" where
  "get_comments template_str =
     (let comment_doc = scan_comments template_str [] in
      if comment_doc = [] then [] else normalize_indentation comment_doc)"

text \<open>The YAML loader is a parameter; \<open>None\<close> is its \<open>YAMLError\<close>.\<close>

definition get_comments_obj :: "(string \<Rightarrow> pyvalue option) \<Rightarrow> string \<Rightarrow> pyvalue" where
  "get_comments_obj safe_load template_str =
     (let comments = get_comments template_str in
      if comments = [] then PyDict []
      else (case safe_load comments of None \<Rightarrow> PyDict [] | Some v \<Rightarrow> v))"

text \<open>\<open>obj.items()\<close>: only a dict has it.\<close>

definition items :: "pyvalue \<Rightarrow> error + (string \<times> pyvalue) list" where
  "items v = (case v of PyDict kvs \<Rightarrow> Inr kvs | _ \<Rightarrow> Inl AttributeError)"

section \<open>types.py\<close>

datatype SQLUnitMockType = Ttable | Tmapping | Tsequence | Tint | Tfloat | Tstr | Tbool

fun default_factory :: "SQLUnitMockType \<Rightarrow> string \<Rightarrow> string" where
  "default_factory Ttable name = [CHR 0x22] @ name @ ''_table'' @ [CHR 0x22]"
| "default_factory Tmapping name = ''{}''"
| "default_factory Tsequence name = ''[]''"
| "default_factory Tint name = ''0''"
| "default_factory Tfloat name = ''0.0''"
| "default_factory Tstr name = [CHR 0x22] @ name @ [CHR 0x22]"
| "default_factory Tbool name = ''false''"

text \<open>The member of the enumeration with a given value, as pydantic looks it up.\<close>

definition mock_type_of :: "pyvalue \<Rightarrow> SQLUnitMockType option" where
  "mock_type_of v =
     (case v of
        PyStr s \<Rightarrow> map_of [(''table'', Ttable), (''mapping'', Tmapping), (''sequence'', Tsequence),
                            (''int'', Tint), (''float'', Tfloat), (''str'', Tstr), (''bool'', Tbool)] s
      | _ \<Rightarrow> None)"

section \<open>The literals of \<open>ast.literal_eval\<close>\<close>

text \<open>
  \<open>ast.literal_eval\<close> belongs to Python's library. Its answers are modelled on these
  texts: a name (\<open>True\<close>, \<open>False\<close> and \<open>None\<close> are constants, every other name that
  is no keyword is refused with \<open>ValueError\<close>), \<open>{}\<close>, \<open>[]\<close>, \<open>0\<close>, \<open>0.0\<close>, and a text
  between double quotes holding no quote, backslash, line break or null character. On
  every other text the model gives no answer (\<open>None\<close>). A value that is no text is
  refused with \<open>ValueError\<close>.
\<close>

definition python_keywords :: "string list" where
  "python_keywords = [''and'', ''as'', ''assert'', ''async'', ''await'', ''break'', ''class'',
     ''continue'', ''def'', ''del'', ''elif'', ''else'', ''except'', ''finally'', ''for'', ''from'',
     ''global'', ''if'', ''import'', ''in'', ''is'', ''lambda'', ''nonlocal'', ''not'', ''or'',
     ''pass'', ''raise'', ''return'', ''try'', ''while'', ''with'', ''yield'']"

definition is_name :: "string \<Rightarrow> bool" where
  "is_name s \<longleftrightarrow> s \<noteq> []
     \<and> hd s \<in> set ''ABCDEFGHIJKLMNOPQRSTUVWXYZabcdefghijklmnopqrstuvwxyz_''
     \<and> list_all (\<lambda>c. c \<in> set ''ABCDEFGHIJKLMNOPQRSTUVWXYZabcdefghijklmnopqrstuvwxyz_0123456789'') s
     \<and> s \<notin> set python_keywords"

definition is_plain_quoted :: "string \<Rightarrow> bool" where
  "is_plain_quoted s \<longleftrightarrow> 2 \<le> length s \<and> hd s = CHR 0x22 \<and> last s = CHR 0x22
     \<and> list_all (\<lambda>c. c \<notin> set [CHR 0x22, CHR 0x5C, CHR 0x0A, CHR 0x0D, CHR 0x00]) (inner s)"

definition literal_eval :: "pyvalue \<Rightarrow> (error + pyvalue) option" where
  "literal_eval v =
     (case v of
        PyStr s \<Rightarrow>
          (if s = ''True'' then Some (Inr (PyBool True))
           else if s = ''False'' then Some (Inr (PyBool False))
           else if s = ''None'' then Some (Inr PyNone)
           else if is_name s then Some (Inl ValueError)
           else if s = ''{}'' then Some (Inr (PyDict []))
           else if s = ''[]'' then Some (Inr (PyList []))
           else if s = ''0'' then Some (Inr (PyInt 0))
           else if s = ''0.0'' then Some (Inr (PyFloat ''0.0''))
           else if is_plain_quoted s then Some (Inr (PyStr (inner s)))
           else None)
      | _ \<Rightarrow> Some (Inl ValueError))"

section \<open>model.py: SQLUnitMock and SQLUnitMockSchema\<close>

record SQLUnitMock =
  mock_name :: string
  mock_typ :: SQLUnitMockType
  mock_default :: "pyvalue option"
  mock_columns :: "(string \<times> string) list option"

definition validate_type :: "SQLUnitMock \<Rightarrow> error + SQLUnitMock" where
  "validate_type m =
     (if mock_typ m = Ttable \<and> mock_columns m = None then Inl ValueError else Inr m)"

text \<open>The field \<open>columns: dict[str, str] | None\<close>, from a keyword argument or its absence.\<close>

definition columns_field :: "pyvalue option \<Rightarrow> (string \<times> string) list option option" where
  "columns_field v =
     (case v of
        None \<Rightarrow> Some None
      | Some PyNone \<Rightarrow> Some None
      | Some (PyDict kvs) \<Rightarrow>
          map_option Some (those (map (\<lambda>(k, t). case t of PyStr ts \<Rightarrow> Some (k, ts) | _ \<Rightarrow> None) kvs))
      | Some _ \<Rightarrow> None)"

text \<open>
  The constructor \<open>SQLUnitMock(name=identifier, **value)\<close>: a second \<open>name\<close> is a
  \<open>TypeError\<close> of the call; a field of the wrong type, a missing \<open>type\<close> or a failing
  validator is pydantic's \<open>ValidationError\<close>.
\<close>

definition SQLUnitMock_new :: "string \<Rightarrow> pyvalue \<Rightarrow> error + SQLUnitMock" where
  "SQLUnitMock_new identifier val =
     (case val of
        PyDict kwargs \<Rightarrow>
          (if ''name'' \<in> set (map fst kwargs) then Inl TypeError
           else (case map_of kwargs ''type'' of
                   None \<Rightarrow> Inl ValidationError
                 | Some tv \<Rightarrow>
                     (case mock_type_of tv of
                        None \<Rightarrow> Inl ValidationError
                      | Some t \<Rightarrow>
                          (case columns_field (map_of kwargs ''columns'') of
                             None \<Rightarrow> Inl ValidationError
                           | Some cs \<Rightarrow>
                               (case validate_type
                                   \<lparr>mock_name = identifier, mock_typ = t,
                                    mock_default = (case map_of kwargs ''default'' of
                                                      None \<Rightarrow> None
                                                    | Some PyNone \<Rightarrow> None
                                                    | Some d \<Rightarrow> Some d),
                                    mock_columns = cs\<rparr> of
                                  Inl e \<Rightarrow> Inl ValidationError
                                | Inr m \<Rightarrow> Inr m)))))
      | _ \<Rightarrow> Inl TypeError)"

definition SQLUnitMock_from_yaml_item :: "string \<Rightarrow> pyvalue \<Rightarrow> error + SQLUnitMock" where
  "SQLUnitMock_from_yaml_item key val =
     (case match_identifier key of
        None \<Rightarrow> Inl ValueError
      | Some (typ, identifier) \<Rightarrow>
          (if typ \<noteq> ''mock'' then Inl AssertionError else SQLUnitMock_new identifier val))"

definition default_value :: "SQLUnitMock \<Rightarrow> (error + pyvalue) option" where
  "default_value m =
     literal_eval (case mock_default m of
                     None \<Rightarrow> PyStr (default_factory (mock_typ m) (mock_name m))
                   | Some d \<Rightarrow> d)"

type_synonym SQLUnitMockSchema = "(string \<times> SQLUnitMock) list"

fun from_template_loop ::
  "(string \<times> pyvalue) list \<Rightarrow> SQLUnitMockSchema \<Rightarrow> error + SQLUnitMockSchema" where
  "from_template_loop [] mocks = Inr mocks"
| "from_template_loop ((key, val) # rest) mocks =
     (if \<not> sublist ''sql-unit.mock'' key then from_template_loop rest mocks
      else (case SQLUnitMock_from_yaml_item key val of
              Inl e \<Rightarrow> (if is_ValueError e then from_template_loop rest mocks else Inl e)
            | Inr parsed_mock \<Rightarrow>
                from_template_loop rest (AList.update (mock_name parsed_mock) parsed_mock mocks)))"

definition from_template :: "(string \<Rightarrow> pyvalue option) \<Rightarrow> string \<Rightarrow> error + SQLUnitMockSchema" where
  "from_template safe_load template_str =
     (case items (get_comments_obj safe_load template_str) of
        Inl e \<Rightarrow> Inl e
      | Inr comment_items \<Rightarrow> from_template_loop comment_items [])"

section \<open>model.py: SQLUnitSource\<close>

text \<open>A source is the text of its file, which every access reads again.\<close>

record SQLUnitSource =
  code :: string

definition mock_schema :: "(string \<Rightarrow> pyvalue option) \<Rightarrow> SQLUnitSource \<Rightarrow> error + SQLUnitMockSchema" where
  "mock_schema safe_load source = from_template safe_load (code source)"

definition mock :: "(string \<Rightarrow> pyvalue option) \<Rightarrow> SQLUnitSource \<Rightarrow> string \<Rightarrow> error + SQLUnitMock option" where
  "mock safe_load source name =
     (case mock_schema safe_load source of Inl e \<Rightarrow> Inl e | Inr ms \<Rightarrow> Inr (map_of ms name))"

section \<open>model.py: SQLUnitTestCase\<close>

text \<open>A value of \<open>given\<close>: a table, or the raw value of the annotation.\<close>

datatype given_value = Table YAMLTable | Raw pyvalue

record SQLUnitTestCase =
  tc_source :: SQLUnitSource
  tc_name :: string
  expected :: YAMLTable
  given :: "(string \<times> given_value) list"

text \<open>\<open>YAMLTable.from_string(v)\<close> on a loaded value: only a text has \<open>strip\<close>.\<close>

definition from_string_value ::
  "(string \<Rightarrow> pyvalue option) \<Rightarrow> pyvalue \<Rightarrow> (string \<times> string) list option \<Rightarrow> error + YAMLTable" where
  "from_string_value safe_load v schema =
     (case v of PyStr s \<Rightarrow> from_string safe_load s schema | _ \<Rightarrow> Inl AttributeError)"

definition empty_mock_table :: "SQLUnitMock option \<Rightarrow> error + YAMLTable" where
  "empty_mock_table mock_table =
     (case mock_table of
        None \<Rightarrow> Inl AttributeError
      | Some m \<Rightarrow> YAMLTable_new [] (mock_columns m))"

definition parse_given ::
  "(string \<Rightarrow> pyvalue option) \<Rightarrow> SQLUnitSource \<Rightarrow> string \<Rightarrow> pyvalue \<Rightarrow> error + given_value" where
  "parse_given safe_load source key val =
     (case match_given key of
        None \<Rightarrow> Inl ValueError
      | Some name \<Rightarrow>
          (case mock safe_load source name of
             Inl e \<Rightarrow> Inl e
           | Inr None \<Rightarrow> Inl ValueError
           | Inr (Some mock_type) \<Rightarrow>
               (if mock_typ mock_type = Ttable then
                  (case from_string_value safe_load val (mock_columns mock_type) of
                     Inl e \<Rightarrow> Inl e | Inr t \<Rightarrow> Inr (Table t))
                else Inr (Raw val))))"

text \<open>
  The loop of \<open>from_yaml_item\<close> over the names of the mock schema: a name that is no
  key of \<open>given\<close> gets the empty table of its mock.
\<close>

fun backfill ::
  "(string \<Rightarrow> pyvalue option) \<Rightarrow> SQLUnitSource \<Rightarrow> string list \<Rightarrow> (string \<times> given_value) list
     \<Rightarrow> error + (string \<times> given_value) list" where
  "backfill safe_load source [] g = Inr g"
| "backfill safe_load source (k # ks) g =
     (if k \<in> set (map fst g) then backfill safe_load source ks g
      else (case mock safe_load source k of
              Inl e \<Rightarrow> Inl e
            | Inr m \<Rightarrow>
                (case empty_mock_table m of
                   Inl e \<Rightarrow> Inl e
                 | Inr t \<Rightarrow> backfill safe_load source ks (AList.update k (Table t) g))))"

definition from_yaml_item ::
  "(string \<Rightarrow> pyvalue option) \<Rightarrow> SQLUnitSource \<Rightarrow> string \<Rightarrow> pyvalue \<Rightarrow> error + SQLUnitTestCase" where
  "from_yaml_item safe_load source key val =
     (case match_identifier key of
        None \<Rightarrow> Inl ValueError
      | Some (typ, name) \<Rightarrow>
          (if typ \<noteq> ''test'' then Inl ValueError
           else
             (case val of
                PyDict kvs \<Rightarrow>
                  (case map_of kvs ''expected'' of
                     None \<Rightarrow> Inl AssertionError
                   | Some ev \<Rightarrow>
                       (case from_string_value safe_load ev None of
                          Inl e \<Rightarrow> Inl e
                        | Inr exp \<Rightarrow>
                            (let given_keys = filter (\<lambda>(k, v). match_given k \<noteq> None) kvs in
                             case collect (map (\<lambda>(k, v). case parse_given safe_load source k v of
                                                           Inl e \<Rightarrow> Inl e | Inr g \<Rightarrow> Inr (k, g))
                                               given_keys) of
                               Inl e \<Rightarrow> Inl e
                             | Inr g \<Rightarrow>
                                 (case mock_schema safe_load source of
                                    Inl e \<Rightarrow> Inl e
                                  | Inr ms \<Rightarrow>
                                      (case backfill safe_load source (map fst ms) (dict_of g) of
                                         Inl e \<Rightarrow> Inl e
                                       | Inr g' \<Rightarrow>
                                           Inr \<lparr>tc_source = source, tc_name = name,
                                                 expected = exp, given = g'\<rparr>)))))
              | PyStr s \<Rightarrow> (if sublist ''expected'' s then Inl TypeError else Inl AssertionError)
              | PyList xs \<Rightarrow> (if PyStr ''expected'' \<in> set xs then Inl TypeError else Inl AssertionError)
              | _ \<Rightarrow> Inl TypeError)))"

text \<open>The loop of \<open>SQLUnitSource.test_cases\<close>; only a \<open>ValueError\<close> is caught.\<close>

fun test_cases_loop ::
  "(string \<Rightarrow> pyvalue option) \<Rightarrow> SQLUnitSource \<Rightarrow> (string \<times> pyvalue) list \<Rightarrow> SQLUnitTestCase list
     \<Rightarrow> error + SQLUnitTestCase list" where
  "test_cases_loop safe_load source [] cases = Inr cases"
| "test_cases_loop safe_load source ((key, val) # rest) cases =
     (if \<not> sublist ''sql-unit.test'' key then test_cases_loop safe_load source rest cases
      else (case from_yaml_item safe_load source key val of
              Inl e \<Rightarrow> (if is_ValueError e then test_cases_loop safe_load source rest cases
                        else Inl e)
            | Inr c \<Rightarrow> test_cases_loop safe_load source rest (cases @ [c])))"

definition test_cases ::
  "(string \<Rightarrow> pyvalue option) \<Rightarrow> SQLUnitSource \<Rightarrow> error + SQLUnitTestCase list" where
  "test_cases safe_load source =
     (case items (get_comments_obj safe_load (code source)) of
        Inl e \<Rightarrow> Inl e
      | Inr comments \<Rightarrow> test_cases_loop safe_load source comments [])"

text \<open>
  \<open>compile\<close> up to line 300: the text handed to the template engine. The matched
  leading clause is cut from the source by \<open>sub\<close>.
\<close>

definition given_with :: "string \<times> given_value \<Rightarrow> (error + string) option" where
  "given_with = (\<lambda>(name, v).
     case v of
       Table t \<Rightarrow> Some (case as_unioned_selects t of
                          Inl e \<Rightarrow> Inl e
                        | Inr sel \<Rightarrow> Inr (name @ ''_table as ('' @ sel @ '')''))
     | Raw x \<Rightarrow> None)"

definition injected_source_code :: "SQLUnitTestCase \<Rightarrow> error + string" where
  "injected_source_code tc =
     (let leading_with_match = rmatch leading_with_pattern (code (tc_source tc));
          source_code = (case leading_with_match of
                           None \<Rightarrow> code (tc_source tc)
                         | Some (gs, rest) \<Rightarrow> rest)
      in case collect (List.map_filter given_with (given tc)) of
           Inl e \<Rightarrow> Inl e
         | Inr given_withs \<Rightarrow>
             (let with_clause =
                    (if given_withs \<noteq> [] then
                       (let wc = ''with '' @ join '', '' given_withs in
                        if leading_with_match \<noteq> None
                        then wc @ (if leading_with_match \<noteq> None then '','' else []) @ [CHR 0x0A]
                        else wc)
                     else [])
              in Inr (with_clause @ [CHR 0x0A] @ source_code)))"

text \<open>
  The rest of \<open>compile\<close>. The template engine is a parameter: \<open>parse\<close> is
  \<open>Environment().from_string\<close>, \<open>render\<close> is \<open>template.render\<close>.
\<close>

definition render_context ::
  "(string \<times> given_value) list \<Rightarrow> SQLUnitMockSchema \<Rightarrow> (string \<times> given_value) list" where
  "render_context g ms =
     foldl (\<lambda>ctx (k, m). if mock_typ m = Ttable
                           then AList.update (mock_name m) (Raw (PyStr (mock_name m @ ''_table''))) ctx
                           else ctx) g ms"

definition compile ::
  "(string \<Rightarrow> error + 'tpl) \<Rightarrow> ('tpl \<Rightarrow> (string \<times> given_value) list \<Rightarrow> error + string)
     \<Rightarrow> (string \<Rightarrow> pyvalue option) \<Rightarrow> SQLUnitTestCase \<Rightarrow> error + string" where
  "compile parse render safe_load tc =
     (case injected_source_code tc of
        Inl e \<Rightarrow> Inl e
      | Inr text \<Rightarrow>
          (case parse text of
             Inl e \<Rightarrow> Inl e
           | Inr template \<Rightarrow>
               (case mock_schema safe_load (tc_source tc) of
                  Inl e \<Rightarrow> Inl e
                | Inr ms \<Rightarrow>
                    (case render template (render_context (given tc) ms) of
                       Inl e \<Rightarrow> Inl e
                     | Inr rendered_code \<Rightarrow> Inr (strip rendered_code)))))"

section \<open>Example sources\<close>

text \<open>
  Three source files, the annotation documents \<open>get_comments\<close> extracts from them, and
  what \<open>yaml.safe_load\<close> returns on those documents and on the cell \<open>1\<close>.
\<close>

definition nl :: string where
  "nl = [CHR 0x0A]"

definition dq :: string where
  "dq = [CHR 0x22]"

definition table_source :: SQLUnitSource where
  "table_source = \<lparr>code =
     ''with a as (select 1) select * from a, {{ m }}'' @ nl @
     ''/* # sql-unit'' @ nl @
     ''  sql-unit.mock '' @ dq @ ''m'' @ dq @ '':'' @ nl @
     ''    type: table'' @ nl @
     ''    columns:'' @ nl @
     ''      id: int'' @ nl @
     ''*/''\<rparr>"

definition table_doc :: string where
  "table_doc =
     ''sql-unit.mock '' @ dq @ ''m'' @ dq @ '':'' @ nl @
     ''  type: table'' @ nl @
     ''  columns:'' @ nl @
     ''    id: int''"

definition scalar_source :: SQLUnitSource where
  "scalar_source = \<lparr>code =
     ''/* # sql-unit'' @ nl @
     ''  sql-unit.mock '' @ dq @ ''delta'' @ dq @ '':'' @ nl @
     ''    type: int'' @ nl @
     ''*/'' @ nl @
     ''select {{ delta }}''\<rparr>"

definition scalar_doc :: string where
  "scalar_doc =
     ''sql-unit.mock '' @ dq @ ''delta'' @ dq @ '':'' @ nl @
     ''  type: int''"

definition tests_source :: SQLUnitSource where
  "tests_source = \<lparr>code =
     ''select 1 /* # sql-unit'' @ nl @
     ''  sql-unit.test '' @ dq @ ''ok'' @ dq @ '':'' @ nl @
     ''    expected: |-'' @ nl @
     ''      | x |'' @ nl @
     ''      |---|'' @ nl @
     ''  sql-unit.test '' @ dq @ ''t'' @ dq @ '':'' @ nl @
     ''    given '' @ dq @ ''m'' @ dq @ '': 1'' @ nl @
     ''*/''\<rparr>"

definition tests_doc :: string where
  "tests_doc =
     ''sql-unit.test '' @ dq @ ''ok'' @ dq @ '':'' @ nl @
     ''  expected: |-'' @ nl @
     ''    | x |'' @ nl @
     ''    |---|'' @ nl @
     ''sql-unit.test '' @ dq @ ''t'' @ dq @ '':'' @ nl @
     ''  given '' @ dq @ ''m'' @ dq @ '': 1''"

definition sample_safe_load :: "string \<Rightarrow> pyvalue option" where
  "sample_safe_load = map_of
     [(''1'', PyInt 1),
      (table_doc,
       PyDict [(''sql-unit.mock '' @ dq @ ''m'' @ dq,
                PyDict [(''type'', PyStr ''table''),
                        (''columns'', PyDict [(''id'', PyStr ''int'')])])]),
      (scalar_doc,
       PyDict [(''sql-unit.mock '' @ dq @ ''delta'' @ dq,
                PyDict [(''type'', PyStr ''int'')])]),
      (tests_doc,
       PyDict [(''sql-unit.test '' @ dq @ ''ok'' @ dq,
                PyDict [(''expected'', PyStr (''| x |'' @ nl @ ''|---|''))]),
               (''sql-unit.test '' @ dq @ ''t'' @ dq,
                PyDict [(''given '' @ dq @ ''m'' @ dq, PyInt 1)])])]"

text \<open>A test annotation with a \<open>given\<close> table and an \<open>expected\<close> table, and one
  that has only \<open>expected\<close>.\<close>

definition test_with_given :: pyvalue where
  "test_with_given =
     PyDict [(''given '' @ dq @ ''m'' @ dq, PyStr (''| id |'' @ nl @ ''|----|'' @ nl @ ''| 1 |'')),
             (''expected'', PyStr (''| id |'' @ nl @ ''|----|''))]"

definition test_only_expected :: pyvalue where
  "test_only_expected = PyDict [(''expected'', PyStr (''| id |'' @ nl @ ''|----|''))]"

text \<open>A table of two rows, and the same table without its rows.\<close>

definition users_table :: YAMLTable where
  "users_table =
     \<lparr>rows = [[(''id'', PyInt 1), (''name'', PyStr ''foo'')],
              [(''id'', PyInt 2), (''name'', PyStr ''bar'')]],
      columns = [(''id'', ''int''), (''name'', ''string'')]\<rparr>"

definition no_users_table :: YAMLTable where
  "no_users_table = \<lparr>rows = [], columns = [(''id'', ''int''), (''name'', ''string'')]\<rparr>"

section \<open>The comment extractor\<close>

text \<open>Lines joined by a line feed split into the same lines again.\<close>

lemma splitlines_from_line:
  "\<forall>c\<in>set l. \<not> is_linebreak c \<Longrightarrow>
     splitlines_from cur (l @ CHR 0x0A # rest) = (cur @ l) # splitlines_from [] rest"
proof (induction l arbitrary: cur)
  case Nil
  show ?case by (cases rest) (simp_all add: is_linebreak_def)
next
  case (Cons x l)
  then have x: "\<not> is_linebreak x" and l: "\<forall>c\<in>set l. \<not> is_linebreak c" by simp_all
  from x have "x \<noteq> CHR 0x0D" by (auto simp: is_linebreak_def)
  moreover obtain d cs where "l @ CHR 0x0A # rest = d # cs" by (cases "l @ CHR 0x0A # rest") auto
  ultimately have "splitlines_from cur ((x # l) @ CHR 0x0A # rest)
      = splitlines_from (cur @ [x]) (l @ CHR 0x0A # rest)"
    using x by simp
  with Cons.IH [OF l] show ?case by simp
qed

lemma splitlines_from_last:
  "\<forall>c\<in>set l. \<not> is_linebreak c \<Longrightarrow> cur @ l \<noteq> [] \<Longrightarrow> splitlines_from cur l = [cur @ l]"
proof (induction l arbitrary: cur)
  case Nil
  then show ?case by simp
next
  case (Cons x l)
  then have x: "\<not> is_linebreak x" and l: "\<forall>c\<in>set l. \<not> is_linebreak c" by simp_all
  from x have cr: "x \<noteq> CHR 0x0D" by (auto simp: is_linebreak_def)
  show ?case
  proof (cases l)
    case Nil
    then show ?thesis using x by simp
  next
    case (Cons d cs)
    then have "splitlines_from cur (x # l) = splitlines_from (cur @ [x]) l"
      using x cr by simp
    with Cons.IH [OF l, of "cur @ [x]"] show ?thesis by simp
  qed
qed

lemma splitlines_join:
  "ls \<noteq> [] \<Longrightarrow> \<forall>l\<in>set ls. l \<noteq> [] \<and> (\<forall>c\<in>set l. \<not> is_linebreak c) \<Longrightarrow>
     splitlines (join [CHR 0x0A] ls) = ls"
proof (induction "[CHR 0x0A]" ls rule: join.induct)
  case 1
  then show ?case by simp
next
  case (2 x)
  then show ?case by (simp add: splitlines_def splitlines_from_last)
next
  case (3 x y ys)
  then have x: "\<forall>c\<in>set x. \<not> is_linebreak c" by simp
  from 3 have "splitlines (join [CHR 0x0A] (y # ys)) = y # ys" by simp
  with splitlines_from_line [OF x, of "[]" "join [CHR 0x0A] (y # ys)"]
  show ?case by (simp add: splitlines_def)
qed

lemma splitlines_from_no_linebreak:
  "\<forall>c\<in>set cur. \<not> is_linebreak c \<Longrightarrow> l \<in> set (splitlines_from cur s) \<Longrightarrow>
     \<forall>c\<in>set l. \<not> is_linebreak c"
proof (induction cur s rule: splitlines_from.induct)
  case (1 cur)
  then show ?case by (cases "cur = []") simp_all
next
  case (2 cur c)
  then show ?case by (cases "is_linebreak c") simp_all
next
  case (3 cur c d cs)
  show ?case
  proof (cases "c = CHR 0x0D \<and> d = CHR 0x0A")
    case True
    then have "splitlines_from cur (c # d # cs) = cur # splitlines_from [] cs"
      by simp
    with "3.prems"(2) have "l = cur \<or> l \<in> set (splitlines_from [] cs)"
      by (simp only: set_simps insert_iff)
    then show ?thesis
    proof
      assume "l = cur"
      with "3.prems"(1) show ?thesis by simp
    next
      assume "l \<in> set (splitlines_from [] cs)"
      with "3.IH"(1) [OF True] show ?thesis by simp
    qed
  next
    case False
    show ?thesis
    proof (cases "is_linebreak c")
      case True
      with False have "splitlines_from cur (c # d # cs) = cur # splitlines_from [] (d # cs)"
        by (simp only: splitlines_from.simps(3) if_False if_True)
      with "3.prems"(2) have "l = cur \<or> l \<in> set (splitlines_from [] (d # cs))"
        by (simp only: set_simps insert_iff)
      then show ?thesis
      proof
        assume "l = cur"
        with "3.prems"(1) show ?thesis by simp
      next
        assume "l \<in> set (splitlines_from [] (d # cs))"
        with "3.IH"(2) [OF False True] show ?thesis by simp
      qed
    next
      case nlb: False
      with False have "splitlines_from cur (c # d # cs) = splitlines_from (cur @ [c]) (d # cs)"
        by (simp only: splitlines_from.simps(3) if_False if_True)
      with "3.prems"(2) have "l \<in> set (splitlines_from (cur @ [c]) (d # cs))"
        by (simp only:)
      moreover from nlb "3.prems"(1) have "\<forall>x\<in>set (cur @ [c]). \<not> is_linebreak x" by simp
      ultimately show ?thesis using "3.IH"(3) [OF False nlb] by blast
    qed
  qed
qed

lemma strip_nonempty: "strip l \<noteq> [] \<longleftrightarrow> (\<exists>c\<in>set l. \<not> is_space c)"
proof -
  have "strip l = [] \<longleftrightarrow> (\<forall>x\<in>set (dropWhile is_space l). is_space x)"
    by (simp only: strip_def rstrip_def lstrip_def rev_is_Nil_conv dropWhile_eq_Nil_conv set_rev)
  also have "\<dots> \<longleftrightarrow> dropWhile is_space l = []"
  proof
    assume all: "\<forall>x\<in>set (dropWhile is_space l). is_space x"
    show "dropWhile is_space l = []"
    proof (rule ccontr)
      assume ne: "dropWhile is_space l \<noteq> []"
      then have "\<not> is_space (hd (dropWhile is_space l))" by (rule hd_dropWhile)
      moreover from ne have "hd (dropWhile is_space l) \<in> set (dropWhile is_space l)"
        by (rule hd_in_set)
      ultimately show False using all by blast
    qed
  next
    assume "dropWhile is_space l = []"
    then show "\<forall>x\<in>set (dropWhile is_space l). is_space x"
      by (simp only: list.set ball_empty)
  qed
  also have "\<dots> \<longleftrightarrow> (\<forall>c\<in>set l. is_space c)"
    by (simp only: dropWhile_eq_Nil_conv)
  finally show ?thesis by blast
qed

lemma indent_takeWhile: "length l - length (lstrip l) = length (takeWhile is_space l)"
proof -
  have "length (takeWhile is_space l) + length (dropWhile is_space l) = length l"
    by (metis length_append takeWhile_dropWhile_id)
  then show ?thesis by (simp add: lstrip_def)
qed

lemma dropWhile_drop:
  "m \<le> length (takeWhile P xs) \<Longrightarrow> dropWhile P (drop m xs) = dropWhile P xs"
proof (induction xs arbitrary: m)
  case Nil
  then show ?case by simp
next
  case (Cons x xs)
  then show ?case by (cases m) (auto split: if_splits)
qed

lemma takeWhile_drop:
  "m \<le> length (takeWhile P xs) \<Longrightarrow> length (takeWhile P (drop m xs)) = length (takeWhile P xs) - m"
proof (induction xs arbitrary: m)
  case Nil
  then show ?case by simp
next
  case (Cons x xs)
  then show ?case by (cases m) (auto split: if_splits)
qed

lemma rstrip_decomp: "l = rstrip l @ rev (takeWhile is_space (rev l))"
proof -
  have "rstrip l @ rev (takeWhile is_space (rev l))
      = rev (takeWhile is_space (rev l) @ dropWhile is_space (rev l))"
    by (simp only: rstrip_def rev_append)
  also have "\<dots> = rev (rev l)" by (simp only: takeWhile_dropWhile_id)
  finally show ?thesis by simp
qed

lemma set_rstrip: "set (rstrip l) \<subseteq> set l"
proof -
  have "set l = set (rstrip l @ rev (takeWhile is_space (rev l)))"
    using rstrip_decomp [of l] by simp
  then show ?thesis by auto
qed

lemma rstrip_nonspace:
  assumes "\<exists>c\<in>set l. \<not> is_space c"
  shows "\<exists>c\<in>set (rstrip l). \<not> is_space c"
proof -
  from assms obtain c where c: "c \<in> set l" "\<not> is_space c" by blast
  have "set l = set (rstrip l @ rev (takeWhile is_space (rev l)))"
    using rstrip_decomp [of l] by simp
  then have "set l = set (rstrip l) \<union> set (takeWhile is_space (rev l))"
    by simp
  moreover have "\<forall>x\<in>set (takeWhile is_space (rev l)). is_space x"
    by (auto dest: set_takeWhileD)
  ultimately show ?thesis using c by blast
qed

lemma rstrip_idem: "rstrip (rstrip l) = rstrip l"
proof (cases "dropWhile is_space (rev l)")
  case Nil
  then show ?thesis by (simp add: rstrip_def)
next
  case (Cons x xs)
  then have "\<not> is_space x" by (metis hd_dropWhile list.distinct(1) list.sel(1))
  then show ?thesis using Cons by (simp add: rstrip_def)
qed

lemma takeWhile_rstrip:
  assumes "\<exists>c\<in>set l. \<not> is_space c"
  shows "takeWhile is_space (rstrip l) = takeWhile is_space l"
proof -
  from rstrip_nonspace [OF assms] obtain c where "c \<in> set (rstrip l)" "\<not> is_space c" by blast
  then have "takeWhile is_space (rstrip l @ rev (takeWhile is_space (rev l)))
      = takeWhile is_space (rstrip l)"
    by (rule takeWhile_append1)
  then show ?thesis using rstrip_decomp [of l] by simp
qed

lemma min_list_map_le: "x \<in> set xs \<Longrightarrow> min_list (map f xs) \<le> (f x :: nat)"
proof (induction xs)
  case Nil
  then show ?case by simp
next
  case (Cons y ys)
  show ?case
  proof (cases ys)
    case Nil
    with Cons.prems show ?thesis by simp
  next
    case (Cons z zs)
    then have "min_list (map f (y # ys)) = min (f y) (min_list (map f ys))" by simp
    moreover have "x = y \<or> x \<in> set ys" using Cons.prems by simp
    ultimately show ?thesis using Cons.IH by (auto simp: min_def)
  qed
qed

lemma min_list_map_in: "xs \<noteq> [] \<Longrightarrow> \<exists>x\<in>set xs. (f x :: nat) = min_list (map f xs)"
proof (induction xs)
  case Nil
  then show ?case by simp
next
  case (Cons y ys)
  show ?case
  proof (cases ys)
    case Nil
    then show ?thesis by simp
  next
    case (Cons z zs)
    then have eq: "min_list (map f (y # ys)) = min (f y) (min_list (map f ys))" by simp
    from Cons have "ys \<noteq> []" by simp
    from Cons.IH [OF this] obtain x where "x \<in> set ys" "f x = min_list (map f ys)" by blast
    then show ?thesis unfolding eq by (cases "f y \<le> min_list (map f ys)") (auto simp: min_def)
  qed
qed

lemma normalize_indentation_alt:
  "normalize_indentation x =
     (let ls = filter (\<lambda>line. strip line \<noteq> []) (splitlines x) in
      if ls = [] then []
      else join [CHR 0x0A] (map rstrip (splitlines (join [CHR 0x0A]
             (map (drop (min_list (map (\<lambda>line. length (takeWhile is_space line)) ls))) ls)))))"
  by (simp only: normalize_indentation_def Let_def indent_takeWhile)

text \<open>A text that is already normalised is left as it is.\<close>

lemma normalize_indentation_fixed:
  assumes ne: "ls \<noteq> []"
    and lines: "\<forall>l\<in>set ls. (\<exists>c\<in>set l. \<not> is_space c) \<and> (\<forall>c\<in>set l. \<not> is_linebreak c) \<and> rstrip l = l"
    and zero: "\<exists>l\<in>set ls. takeWhile is_space l = []"
  shows "normalize_indentation (join [CHR 0x0A] ls) = join [CHR 0x0A] ls"
proof -
  from lines have nonempty: "\<forall>l\<in>set ls. l \<noteq> [] \<and> (\<forall>c\<in>set l. \<not> is_linebreak c)" by auto
  have split: "splitlines (join [CHR 0x0A] ls) = ls"
    using ne nonempty by (rule splitlines_join)
  have keep: "filter (\<lambda>line. strip line \<noteq> []) ls = ls"
    using lines by (simp add: strip_nonempty)
  let ?f = "\<lambda>line. length (takeWhile is_space line)"
  from zero obtain l0 where "l0 \<in> set ls" "?f l0 = 0" by auto
  with min_list_map_le [of l0 ls ?f] have m: "min_list (map ?f ls) = 0" by simp
  have rs: "map rstrip ls = ls" using lines by (simp add: map_idI)
  have d0: "map (drop 0) ls = ls" by simp
  show ?thesis
    unfolding normalize_indentation_alt Let_def split keep m d0 rs
    using ne by simp
qed

text \<open>
  C8: the post-processing of the comment extractor (blank lines dropped, the common
  indentation cut, trailing whitespace stripped) is idempotent, for every text.
\<close>

theorem normalize_indentation_idempotent:
  "normalize_indentation (normalize_indentation x) = normalize_indentation x"
proof -
  let ?L = "filter (\<lambda>line. strip line \<noteq> []) (splitlines x)"
  let ?f = "\<lambda>line. length (takeWhile is_space line)"
  show ?thesis
  proof (cases "?L = []")
    case True
    then have "normalize_indentation x = []" by (simp add: normalize_indentation_alt)
    moreover have "normalize_indentation [] = []"
      by (simp add: normalize_indentation_alt splitlines_def)
    ultimately show ?thesis by simp
  next
    case False
    let ?m = "min_list (map ?f ?L)"
    let ?L1 = "map (drop ?m) ?L"
    let ?L2 = "map rstrip ?L1"
    have L: "(\<exists>c\<in>set l. \<not> is_space c) \<and> (\<forall>c\<in>set l. \<not> is_linebreak c)" if "l \<in> set ?L" for l
    proof -
      from that have in_split: "l \<in> set (splitlines_from [] x)" and nb: "strip l \<noteq> []"
        by (simp_all add: splitlines_def)
      from nb have "\<exists>c\<in>set l. \<not> is_space c" by (simp only: strip_nonempty)
      moreover have "\<forall>c\<in>set l. \<not> is_linebreak c"
        by (rule splitlines_from_no_linebreak [OF _ in_split]) simp
      ultimately show ?thesis by blast
    qed
    have le: "?m \<le> ?f l" if "l \<in> set ?L" for l
      using that by (rule min_list_map_le)
    from min_list_map_in [OF False, of ?f] obtain l0 where l0: "l0 \<in> set ?L" "?f l0 = ?m"
      by blast
    have L1: "(\<exists>c\<in>set l. \<not> is_space c) \<and> (\<forall>c\<in>set l. \<not> is_linebreak c)" if "l \<in> set ?L1" for l
    proof -
      from that obtain l' where l': "l' \<in> set ?L" "l = drop ?m l'"
        by (auto simp only: set_map)
      from le [OF l'(1)] have "dropWhile is_space (drop ?m l') = dropWhile is_space l'"
        by (rule dropWhile_drop)
      moreover from L [OF l'(1)] have "dropWhile is_space l' \<noteq> []"
        by (simp only: dropWhile_eq_Nil_conv) blast
      ultimately have "dropWhile is_space l \<noteq> []" using l'(2) by simp
      then have "\<exists>c\<in>set l. \<not> is_space c" by (simp only: dropWhile_eq_Nil_conv) blast
      moreover from L [OF l'(1)] l'(2) have "\<forall>c\<in>set l. \<not> is_linebreak c"
        by (auto dest: in_set_dropD)
      ultimately show ?thesis by blast
    qed
    have L1ne: "?L1 \<noteq> []" using False by simp
    have "\<forall>l\<in>set ?L1. l \<noteq> [] \<and> (\<forall>c\<in>set l. \<not> is_linebreak c)"
      using L1 by fastforce
    with L1ne have split1: "splitlines (join [CHR 0x0A] ?L1) = ?L1"
      by (rule splitlines_join)
    have norm: "normalize_indentation x = join [CHR 0x0A] ?L2"
      unfolding normalize_indentation_alt Let_def split1 using False by simp
    have L2: "\<forall>l\<in>set ?L2. (\<exists>c\<in>set l. \<not> is_space c) \<and> (\<forall>c\<in>set l. \<not> is_linebreak c) \<and> rstrip l = l"
    proof
      fix l assume "l \<in> set ?L2"
      then obtain l' where l': "l' \<in> set ?L1" "l = rstrip l'"
        by (auto simp only: set_map)
      from L1 [OF l'(1)] have sp: "\<exists>c\<in>set l'. \<not> is_space c" and lb: "\<forall>c\<in>set l'. \<not> is_linebreak c"
        by blast+
      from sp have "\<exists>c\<in>set l. \<not> is_space c" unfolding l'(2) by (rule rstrip_nonspace)
      moreover from lb set_rstrip [of l'] have "\<forall>c\<in>set l. \<not> is_linebreak c"
        unfolding l'(2) by blast
      moreover have "rstrip l = l" unfolding l'(2) by (rule rstrip_idem)
      ultimately show "(\<exists>c\<in>set l. \<not> is_space c) \<and> (\<forall>c\<in>set l. \<not> is_linebreak c) \<and> rstrip l = l"
        by blast
    qed
    have zero: "\<exists>l\<in>set ?L2. takeWhile is_space l = []"
    proof -
      let ?l1 = "drop ?m l0"
      from l0(1) have in1: "?l1 \<in> set ?L1" by (simp only: set_map) (rule imageI)
      from le [OF l0(1)] have "?f ?l1 = ?f l0 - ?m" by (rule takeWhile_drop)
      with l0(2) have "takeWhile is_space ?l1 = []" by simp
      moreover from L1 [OF in1] have "\<exists>c\<in>set ?l1. \<not> is_space c" by blast
      ultimately have "takeWhile is_space (rstrip ?l1) = []" by (simp only: takeWhile_rstrip)
      moreover from in1 have "rstrip ?l1 \<in> set ?L2" by (simp only: set_map) (rule imageI)
      ultimately show ?thesis by blast
    qed
    have "?L2 \<noteq> []" using False by simp
    from normalize_indentation_fixed [OF this L2 zero] norm show ?thesis by (simp only:)
  qed
qed

section \<open>The pipe-table parser\<close>

text \<open>
  C10: for every input that, once stripped, is exactly one line (a header with no
  separator row), \<open>from_string\<close> raises \<open>IndexError\<close> at \<open>lines[1]\<close>, whatever the schema.
\<close>

theorem from_string_single_line_IndexError:
  "length (splitlines (strip table_str)) = 1
     \<Longrightarrow> from_string safe_load table_str schema = Inl IndexError"
  unfolding from_string_def Let_def by (cases "splitlines (strip table_str)") auto

theorem from_string_single_line_IndexError_witness:
  "length (splitlines (strip ''  | id | name |  '')) = 1
   \<and> from_string sample_safe_load ''  | id | name |  '' None = Inl IndexError"
proof -
  have h: "length (splitlines (strip ''  | id | name |  '')) = 1" by code_simp
  from from_string_single_line_IndexError [OF h] h show ?thesis by simp
qed

text \<open>
  C5: with the schema \<open>{id: int}\<close> and the header cell \<open>id::bigint\<close>, the annotation is
  stored under the whole cell text, so the table gets a second column \<open>id::bigint\<close> and
  \<open>id\<close> keeps the type \<open>int\<close>.
\<close>

theorem inline_annotation_adds_a_column:
  "from_string sample_safe_load (''| id::bigint |'' @ nl @ ''|----|'') (Some [(''id'', ''int'')])
     = Inr \<lparr>rows = [], columns = [(''id'', ''int''), (''id::bigint'', ''bigint'')]\<rparr>"
  by code_simp

text \<open>With a data row the same header makes the constructor fail: the row has the key
  \<open>id::bigint\<close> only.\<close>

lemma inline_annotation_with_row:
  "from_string sample_safe_load (''| id::bigint |'' @ nl @ ''|----|'' @ nl @ ''| 1 |'')
     (Some [(''id'', ''int'')]) = Inl ValidationError"
  by code_simp

text \<open>No table has zero columns: the constructor's validator refuses them.\<close>

lemma parse_rows_no_columns:
  "parse_rows safe_load [] ls = Inr (map (\<lambda>l. []) (filter (\<lambda>l. strip l \<noteq> []) ls))"
  by (induction ls) (simp_all add: dict_of_def dict_update_def)

lemma YAMLTable_new_columns: "YAMLTable_new rs cs = Inr t \<Longrightarrow> columns t \<noteq> []"
  by (auto simp: YAMLTable_new_def validate_columns_def split: option.splits if_splits)

lemma from_string_columns: "from_string safe_load s schema = Inr t \<Longrightarrow> columns t \<noteq> []"
  unfolding from_string_def Let_def
  by (auto split: if_splits sum.splits dest: YAMLTable_new_columns)

text \<open>
  C7, as stated, fails: the header \<open>x\<close> has no column, the separator row is valid, and
  \<open>from_string\<close> raises.
\<close>

theorem no_columns_counterexample:
  "inner (split_chr CHR ''|'' (strip (hd (splitlines (strip (''x'' @ nl @ ''-'')))))) = []
   \<and> from_string sample_safe_load (''x'' @ nl @ ''-'') None = Inl ValidationError"
  by code_simp

text \<open>
  C7, amended: for every input whose header line yields no column names, \<open>from_string\<close>
  without a schema always raises; once the separator row is there and valid, the error
  is the one of the column validator (\<open>Columns must be defined for a YAMLTable\<close>, raised
  as pydantic's \<open>ValidationError\<close>, a \<open>ValueError\<close>). With any schema, a table that is
  returned has at least one column.
\<close>

theorem no_columns_never_a_table:
  assumes "splitlines (strip s) \<noteq> []"
    and "inner (split_chr CHR ''|'' (strip (hd (splitlines (strip s))))) = []"
  shows "(\<exists>e. from_string safe_load s None = Inl e)
    \<and> (2 \<le> length (splitlines (strip s))
         \<and> list_all (\<lambda>c. c \<in> set ''|- '') (strip (splitlines (strip s) ! 1))
       \<longrightarrow> from_string safe_load s None = Inl ValidationError)
    \<and> (\<forall>schema t. from_string safe_load s schema = Inr t \<longrightarrow> columns t \<noteq> [])"
proof -
  have new: "YAMLTable_new rs (Some []) = Inl ValidationError" for rs
    by (simp add: YAMLTable_new_def validate_columns_def)
  have inf: "infer_schema [] = Inr []"
    by (simp add: infer_schema_def)
  have valid: "from_string safe_load s None = Inl ValidationError"
    if "2 \<le> length (splitlines (strip s))"
      and "list_all (\<lambda>c. c \<in> set ''|- '') (strip (splitlines (strip s) ! 1))"
    using that assms unfolding from_string_def Let_def
    by (auto simp: parse_rows_no_columns new inf dict_of_def dict_update_def hd_map
        split: if_splits)
  have err: "\<exists>e. from_string safe_load s None = Inl e"
  proof (cases "2 \<le> length (splitlines (strip s))
      \<and> list_all (\<lambda>c. c \<in> set ''|- '') (strip (splitlines (strip s) ! 1))")
    case True
    then show ?thesis using valid by blast
  next
    case False
    then show ?thesis using assms unfolding from_string_def Let_def by auto
  qed
  from err valid from_string_columns show ?thesis by blast
qed

theorem no_columns_never_a_table_witness:
  "splitlines (strip (''no pipes'' @ nl @ ''|---|'' @ nl @ ''| 1 |'')) \<noteq> []
   \<and> inner (split_chr CHR ''|''
        (strip (hd (splitlines (strip (''no pipes'' @ nl @ ''|---|'' @ nl @ ''| 1 |'')))))) = []
   \<and> from_string sample_safe_load (''no pipes'' @ nl @ ''|---|'' @ nl @ ''| 1 |'') None
       = Inl ValidationError"
proof -
  let ?s = "''no pipes'' @ nl @ ''|---|'' @ nl @ ''| 1 |''"
  have h1: "splitlines (strip ?s) \<noteq> []" by code_simp
  have h2: "inner (split_chr CHR ''|'' (strip (hd (splitlines (strip ?s))))) = []" by code_simp
  have h3: "2 \<le> length (splitlines (strip ?s))" by code_simp
  have h4: "list_all (\<lambda>c. c \<in> set ''|- '') (strip (splitlines (strip ?s) ! 1))" by code_simp
  from no_columns_never_a_table [OF h1 h2, of sample_safe_load] h3 h4
  have "from_string sample_safe_load ?s None = Inl ValidationError" by blast
  with h1 h2 show ?thesis by blast
qed

section \<open>The select statements of a table\<close>

text \<open>Occurrences of a text do not cross a character it does not hold.\<close>

lemma count_sub_Cons_notin:
  "p \<noteq> [] \<Longrightarrow> x \<notin> set p \<Longrightarrow> count_sub p (x # s) = count_sub p s"
  by (cases p) auto

lemma prefix_sep: "c \<notin> set p \<Longrightarrow> prefix p (a @ c # b) \<longleftrightarrow> prefix p a"
proof
  assume c: "c \<notin> set p" and "prefix p (a @ c # b)"
  then consider "prefix p a" | us where "p = a @ us" "prefix us (c # b)"
    by (auto simp: prefix_append)
  then show "prefix p a"
  proof cases
    case 1
    then show ?thesis .
  next
    case 2
    with c have "us = []" by (cases us) auto
    with 2 show ?thesis by simp
  qed
next
  assume "prefix p a"
  then show "prefix p (a @ c # b)" by (rule prefix_prefix)
qed

lemma count_sub_sep:
  "p \<noteq> [] \<Longrightarrow> c \<notin> set p \<Longrightarrow> count_sub p (a @ c # b) = count_sub p a + count_sub p b"
proof (induction a)
  case Nil
  then show ?case by (simp add: count_sub_Cons_notin del: count_sub.simps(2))
next
  case (Cons x a)
  from prefix_sep [OF Cons.prems(2), of "x # a" b]
  have "prefix p (x # a @ c # b) \<longleftrightarrow> prefix p (x # a)" by simp
  with Cons show ?case by simp
qed

lemma prefix_sep2:
  assumes "p \<noteq> []" "last p \<noteq> c" "\<not> sublist [c, d] p"
  shows "prefix p (a @ c # d # r) \<longleftrightarrow> prefix p a"
proof
  assume "prefix p (a @ c # d # r)"
  then consider "prefix p a" | us where "p = a @ us" "prefix us (c # d # r)"
    by (auto simp: prefix_append)
  then show "prefix p a"
  proof cases
    case 1
    then show ?thesis .
  next
    case 2
    show ?thesis
    proof (cases us)
      case Nil
      with 2 show ?thesis by simp
    next
      case (Cons u us')
      with 2 have u: "u = c" by simp
      show ?thesis
      proof (cases us')
        case Nil
        with Cons u 2 assms(2) show ?thesis by simp
      next
        case (Cons u' us'')
        with \<open>us = u # us'\<close> u 2 have "p = a @ [c, d] @ us''" by simp
        then have "sublist [c, d] p" by (auto simp: sublist_def)
        with assms(3) show ?thesis by simp
      qed
    qed
  qed
next
  assume "prefix p a"
  then show "prefix p (a @ c # d # r)" by (rule prefix_prefix)
qed

lemma count_sub_sep2:
  assumes "p \<noteq> []" "last p \<noteq> c" "\<not> sublist [c, d] p"
  shows "count_sub p (a @ c # d # r) = count_sub p a + count_sub p (c # d # r)"
proof (induction a)
  case Nil
  from assms(1) show ?case by simp
next
  case (Cons x a)
  from prefix_sep2 [OF assms, of "x # a" r]
  have "prefix p (x # a @ c # d # r) \<longleftrightarrow> prefix p (x # a)" by simp
  with Cons show ?case by simp
qed

lemma count_sub_zero: "p \<noteq> [] \<Longrightarrow> count_sub p s = 0 \<longleftrightarrow> \<not> sublist p s"
  by (induction s) (auto simp: sublist_Cons_right)

lemma count_sub_join:
  assumes "p \<noteq> []" "c \<notin> set p" and mid: "\<And>s. count_sub p (mid @ s) = count_sub p s"
  shows "count_sub p (join (c # mid) xs) = sum_list (map (count_sub p) xs)"
proof (induction "c # mid" xs rule: join.induct)
  case 1
  from assms(1) show ?case by simp
next
  case (2 x)
  then show ?case by simp
next
  case (3 x y ys)
  have "count_sub p (join (c # mid) (x # y # ys))
      = count_sub p (x @ c # (mid @ join (c # mid) (y # ys)))" by simp
  also have "\<dots> = count_sub p x + count_sub p (mid @ join (c # mid) (y # ys))"
    using assms(1,2) by (rule count_sub_sep)
  finally show ?case using 3 mid by simp
qed

lemma count_sub_select_alias:
  "count_sub ''select'' (cast_alias ((k, v), ty))
     = count_sub ''select'' v + count_sub ''select'' ty + count_sub ''select'' k"
  by (simp add: cast_alias_def count_sub_sep)

lemma count_sub_where_alias:
  "count_sub ''where false'' (cast_alias ((k, v), ty))
     = count_sub ''where false'' v + count_sub ''where false'' ty + count_sub ''where false'' k"
proof -
  have a: "\<not> sublist [CHR '' '', CHR ''a''] ''where false''" by code_simp
  show ?thesis
    by (simp add: cast_alias_def count_sub_sep count_sub_sep2 [OF _ _ a])
qed

lemma collect_Inr: "collect rs = Inr xs \<Longrightarrow> rs = map Inr xs"
proof (induction rs arbitrary: xs)
  case Nil
  then show ?case by simp
next
  case (Cons r rs)
  show ?case
  proof (cases r)
    case (Inl e)
    with Cons.prems show ?thesis by simp
  next
    case (Inr x)
    show ?thesis
    proof (cases "collect rs")
      case (Inl e)
      with Inr Cons.prems show ?thesis by simp
    next
      case rs': (Inr xs')
      with Inr Cons.prems have "xs = x # xs'" by simp
      with Cons.IH [OF rs'] Inr show ?thesis by simp
    qed
  qed
qed

lemma sql_values_Inr:
  assumes "sql_values r = Inr svs"
  shows "\<forall>(k, e)\<in>set svs. \<exists>v. (k, v) \<in> set r \<and> native_to_sql v = Inr e"
  using assms
proof (induction r arbitrary: svs)
  case Nil
  then show ?case by (simp add: sql_values_def)
next
  case (Cons kv r)
  obtain k v where kv: "kv = (k, v)" by (cases kv)
  from Cons.prems kv obtain e svs' where e: "native_to_sql v = Inr e"
    and rest: "sql_values r = Inr svs'" and svs: "svs = (k, e) # svs'"
    unfolding sql_values_def by (auto split: sum.splits)
  from Cons.IH [OF rest] have "\<forall>(k, e)\<in>set svs'. \<exists>v. (k, v) \<in> set (kv # r) \<and> native_to_sql v = Inr e"
    by fastforce
  moreover have "\<exists>v'. (k, v') \<in> set (kv # r) \<and> native_to_sql v' = Inr e"
    using kv e by auto
  ultimately show ?case unfolding svs by simp
qed

lemma sum_list_all_zero: "\<forall>x\<in>set xs. f x = (0::nat) \<Longrightarrow> sum_list (map f xs) = 0"
  by (induction xs) simp_all

text \<open>A text that occurs in no name, type or encoded cell occurs in no alias.\<close>

lemma select_of_count:
  assumes sel: "select_of cols r = Inr s"
    and al: "\<And>k v ty. count_sub p (cast_alias ((k, v), ty))
                  = count_sub p v + count_sub p ty + count_sub p k"
    and pre: "\<And>x. count_sub p (''select '' @ x) = n + count_sub p x"
    and sep: "p \<noteq> []" "CHR '','' \<notin> set p" "\<And>x. count_sub p ('' '' @ x) = count_sub p x"
    and keys: "\<forall>(k, v)\<in>set r. \<not> sublist p k"
    and tys: "\<forall>(col, typ)\<in>set cols. \<not> sublist p typ"
    and cells: "\<forall>(k, v)\<in>set r. case native_to_sql v of Inl e \<Rightarrow> True | Inr e \<Rightarrow> \<not> sublist p e"
  shows "count_sub p s = n"
proof -
  from sel obtain svs where svs: "sql_values r = Inr svs"
    and s: "s = ''select '' @ join '', '' (map cast_alias (zip svs (map snd cols)))"
    by (auto simp: select_of_def split: sum.splits)
  have zero: "\<forall>a\<in>set (map cast_alias (zip svs (map snd cols))). count_sub p a = 0"
  proof
    fix a assume "a \<in> set (map cast_alias (zip svs (map snd cols)))"
    then have "a \<in> cast_alias ` set (zip svs (map snd cols))" by (simp only: set_map)
    then obtain z where z: "z \<in> set (zip svs (map snd cols))" and a: "a = cast_alias z"
      by (rule imageE)
    obtain k e ty where zz: "z = ((k, e), ty)" by (cases z, cases "fst z") auto
    from z zz have ke: "(k, e) \<in> set svs" by (auto dest: set_zip_leftD)
    from z zz have "ty \<in> set (map snd cols)" by (auto dest: set_zip_rightD)
    then obtain col where col: "(col, ty) \<in> set cols" by auto
    from sql_values_Inr [OF svs] ke obtain v where v: "(k, v) \<in> set r" "native_to_sql v = Inr e"
      by blast
    from keys v(1) have k0: "\<not> sublist p k" by blast
    from cells v(1) have "case native_to_sql v of Inl e \<Rightarrow> True | Inr e \<Rightarrow> \<not> sublist p e"
      by blast
    with v(2) have e0: "\<not> sublist p e" by simp
    from tys col have t0: "\<not> sublist p ty" by blast
    from k0 e0 t0 sep(1) have "count_sub p k = 0" "count_sub p e = 0" "count_sub p ty = 0"
      by (simp_all add: count_sub_zero)
    then show "count_sub p a = 0" by (simp only: a zz al)
  qed
  have "count_sub p (join (CHR '','' # '' '') (map cast_alias (zip svs (map snd cols))))
      = sum_list (map (count_sub p) (map cast_alias (zip svs (map snd cols))))"
    using sep by (rule count_sub_join)
  also have "\<dots> = 0" using zero by (rule sum_list_all_zero)
  finally have "count_sub p (join '', '' (map cast_alias (zip svs (map snd cols)))) = 0" .
  then show ?thesis by (simp only: s pre)
qed

lemma selects_count:
  assumes "list_all2 (\<lambda>r s. count_sub p s = n) rs selects"
    and sep: "p \<noteq> []" "CHR 0x0A \<notin> set p"
      "\<And>x. count_sub p ((''union all'' @ [CHR 0x0A]) @ x) = count_sub p x"
  shows "count_sub p (join (CHR 0x0A # ''union all'' @ [CHR 0x0A]) selects) = n * length rs"
proof -
  have "count_sub p (join (CHR 0x0A # ''union all'' @ [CHR 0x0A]) selects)
      = sum_list (map (count_sub p) selects)"
    using sep by (rule count_sub_join)
  also from assms(1) have "\<dots> = n * length rs"
    by (induction rs selects rule: list_all2_induct) simp_all
  finally show ?thesis .
qed

lemma map_eq_list_all2:
  "map f xs = map g ys \<Longrightarrow> list_all2 (\<lambda>x y. f x = g y) xs ys"
proof (induction xs arbitrary: ys)
  case Nil
  then show ?case by simp
next
  case (Cons x xs)
  then obtain y ys' where "ys = y # ys'" by (cases ys) auto
  with Cons show ?case by simp
qed

lemma select_of_prefix: "select_of cols r = Inr s \<Longrightarrow> prefix ''select '' s"
  by (auto simp: select_of_def split: sum.splits)

text \<open>
  C2, amended: for every table that passes the constructor's check. With no rows the
  result is \<open>select\<close>, then \<open>cast(null as <type>) as <col>\<close> for every column in declared
  order, joined by commas, then a line feed and \<open>where false\<close>; the text \<open>select\<close>
  occurs in it exactly once when it occurs in no column name and no type. With N > 0
  rows (every cell encodable) the result is N clauses, each starting with \<open>select\<close>,
  joined by \<open>union all\<close> on a line of its own; \<open>select\<close> occurs in it exactly N times,
  and \<open>where false\<close> nowhere, when they occur in no column name, type or encoded cell.
\<close>

theorem as_unioned_selects_shape:
  assumes valid: "validate_columns t = Inr t" and res: "as_unioned_selects t = Inr r"
  shows "(rows t = [] \<longrightarrow>
            r = ''select ''
                @ join '', '' (map (\<lambda>(col, typ). ''cast(null as '' @ typ @ '') as '' @ col) (columns t))
                @ [CHR 0x0A] @ ''where false''
          \<and> suffix ''where false'' r
          \<and> ((\<forall>(col, typ)\<in>set (columns t). \<not> sublist ''select'' col \<and> \<not> sublist ''select'' typ)
               \<longrightarrow> count_sub ''select'' r = 1))
     \<and> (rows t \<noteq> [] \<longrightarrow>
            (\<exists>selects.
               list_all2 (\<lambda>row s. select_of (columns t) row = Inr s \<and> prefix ''select '' s)
                 (rows t) selects
               \<and> r = join ([CHR 0x0A] @ ''union all'' @ [CHR 0x0A]) selects)
          \<and> ((\<forall>(col, typ)\<in>set (columns t). \<not> sublist ''select'' col \<and> \<not> sublist ''select'' typ)
               \<and> (\<forall>row\<in>set (rows t). \<forall>(k, v)\<in>set row.
                     case native_to_sql v of Inl e \<Rightarrow> True | Inr e \<Rightarrow> \<not> sublist ''select'' e)
               \<longrightarrow> count_sub ''select'' r = length (rows t))
          \<and> ((\<forall>(col, typ)\<in>set (columns t).
                     \<not> sublist ''where false'' col \<and> \<not> sublist ''where false'' typ)
               \<and> (\<forall>row\<in>set (rows t). \<forall>(k, v)\<in>set row.
                     case native_to_sql v of Inl e \<Rightarrow> True | Inr e \<Rightarrow> \<not> sublist ''where false'' e)
               \<longrightarrow> \<not> sublist ''where false'' r))"
proof (cases "rows t = []")
  case True
  let ?g = "\<lambda>(col, typ). ''cast(null as '' @ typ @ '') as '' @ col"
  let ?j = "join '', '' (map ?g (columns t))"
  from True res have r: "r = ''select '' @ ?j @ [CHR 0x0A] @ ''where false''"
    by (simp add: as_unioned_selects_def)
  then have suf: "suffix ''where false'' r"
    by (simp only: suffix_def) (metis append_assoc)
  have cnt: "count_sub ''select'' r = 1"
    if free: "\<forall>(col, typ)\<in>set (columns t). \<not> sublist ''select'' col \<and> \<not> sublist ''select'' typ"
  proof -
    have g: "?g ct = cast_alias ((fst ct, ''null''), snd ct)" for ct
      by (cases ct) (simp add: cast_alias_def)
    have "\<forall>a\<in>set (map ?g (columns t)). count_sub ''select'' a = 0"
    proof
      fix a assume "a \<in> set (map ?g (columns t))"
      then obtain ct where ct: "ct \<in> set (columns t)" "a = ?g ct" by auto
      from free ct(1) have "\<not> sublist ''select'' (fst ct)" "\<not> sublist ''select'' (snd ct)"
        by (auto simp: case_prod_beta)
      then have "count_sub ''select'' (fst ct) = 0" "count_sub ''select'' (snd ct) = 0"
        by (simp_all add: count_sub_zero)
      then show "count_sub ''select'' a = 0"
        unfolding ct(2) g by (simp add: count_sub_select_alias)
    qed
    then have "sum_list (map (count_sub ''select'') (map ?g (columns t))) = 0"
      by (rule sum_list_all_zero)
    moreover have "count_sub ''select'' (join (CHR '','' # '' '') (map ?g (columns t)))
        = sum_list (map (count_sub ''select'') (map ?g (columns t)))"
      by (rule count_sub_join) (simp_all add: count_sub_Cons_notin)
    ultimately have j0: "count_sub ''select'' ?j = 0" by simp
    have "count_sub ''select'' r = 1 + count_sub ''select'' (?j @ CHR 0x0A # ''where false'')"
      unfolding r by simp
    also have "count_sub ''select'' (?j @ CHR 0x0A # ''where false'')
        = count_sub ''select'' ?j + count_sub ''select'' ''where false''"
      by (rule count_sub_sep) simp_all
    also have "count_sub ''select'' ''where false'' = 0" by simp
    finally show ?thesis using j0 by simp
  qed
  from True r suf cnt show ?thesis by blast
next
  case False
  let ?sep = "CHR 0x0A # ''union all'' @ [CHR 0x0A]"
  from False res obtain selects where col: "collect (map (select_of (columns t)) (rows t)) = Inr selects"
    and r: "r = join ?sep selects"
    by (auto simp: as_unioned_selects_def split: sum.splits)
  from col have "map (select_of (columns t)) (rows t) = map Inr selects" by (rule collect_Inr)
  then have all2: "list_all2 (\<lambda>row s. select_of (columns t) row = Inr s) (rows t) selects"
    by (rule map_eq_list_all2)
  then have shape: "list_all2 (\<lambda>row s. select_of (columns t) row = Inr s \<and> prefix ''select '' s)
      (rows t) selects"
    by (rule list_all2_mono) (simp add: select_of_prefix)
  from valid have keys: "\<forall>row\<in>set (rows t). set (map fst row) = set (map fst (columns t))"
    by (auto simp: validate_columns_def list_ex_iff split: if_splits)
  have count: "count_sub p r = n * length (rows t)"
    if al: "\<And>k v ty. count_sub p (cast_alias ((k, v), ty))
                  = count_sub p v + count_sub p ty + count_sub p k"
      and pre: "\<And>x. count_sub p (''select '' @ x) = n + count_sub p x"
      and sep: "p \<noteq> []" "CHR '','' \<notin> set p" "\<And>x. count_sub p ('' '' @ x) = count_sub p x"
      and sep': "CHR 0x0A \<notin> set p"
        "\<And>x. count_sub p ((''union all'' @ [CHR 0x0A]) @ x) = count_sub p x"
      and fc: "\<forall>(col, typ)\<in>set (columns t). \<not> sublist p col \<and> \<not> sublist p typ"
      and fr: "\<forall>row\<in>set (rows t). \<forall>(k, v)\<in>set row.
                 case native_to_sql v of Inl e \<Rightarrow> True | Inr e \<Rightarrow> \<not> sublist p e"
    for p n
  proof -
    have "list_all2 (\<lambda>row s. count_sub p s = n) (rows t) selects"
      using all2
    proof (rule list.rel_mono_strong)
      fix row s assume row: "row \<in> set (rows t)" and "s \<in> set selects"
        and s: "select_of (columns t) row = Inr s"
      have k: "\<forall>(k, v)\<in>set row. \<not> sublist p k"
      proof (clarify)
        fix k v assume kv: "(k, v) \<in> set row" and sub: "sublist p k"
        from kv have "k \<in> set (map fst row)" by force
        with keys row have "k \<in> set (map fst (columns t))" by blast
        then obtain ty where "(k, ty) \<in> set (columns t)" by auto
        with fc sub show False by blast
      qed
      from fc have tys: "\<forall>(col, typ)\<in>set (columns t). \<not> sublist p typ" by blast
      from fr row have cells: "\<forall>(k, v)\<in>set row.
          case native_to_sql v of Inl e \<Rightarrow> True | Inr e \<Rightarrow> \<not> sublist p e" by blast
      show "count_sub p s = n" by (rule select_of_count [OF s al pre sep k tys cells])
    qed
    then have "count_sub p (join ?sep selects) = n * length (rows t)"
      using sep(1) sep' by (rule selects_count)
    then show ?thesis by (simp only: r)
  qed
  have sel: "count_sub ''select'' r = length (rows t)"
    if "\<forall>(col, typ)\<in>set (columns t). \<not> sublist ''select'' col \<and> \<not> sublist ''select'' typ"
      and "\<forall>row\<in>set (rows t). \<forall>(k, v)\<in>set row.
             case native_to_sql v of Inl e \<Rightarrow> True | Inr e \<Rightarrow> \<not> sublist ''select'' e"
  proof -
    have "count_sub ''select'' r = 1 * length (rows t)"
      by (rule count [OF count_sub_select_alias _ _ _ _ _ _ that]) simp_all
    then show ?thesis by simp
  qed
  have whr: "\<not> sublist ''where false'' r"
    if "\<forall>(col, typ)\<in>set (columns t).
          \<not> sublist ''where false'' col \<and> \<not> sublist ''where false'' typ"
      and "\<forall>row\<in>set (rows t). \<forall>(k, v)\<in>set row.
             case native_to_sql v of Inl e \<Rightarrow> True | Inr e \<Rightarrow> \<not> sublist ''where false'' e"
  proof -
    have "count_sub ''where false'' r = 0 * length (rows t)"
      by (rule count [OF count_sub_where_alias _ _ _ _ _ _ that]) simp_all
    then show ?thesis by (simp add: count_sub_zero)
  qed
  from shape r have "\<exists>selects.
      list_all2 (\<lambda>row s. select_of (columns t) row = Inr s \<and> prefix ''select '' s) (rows t) selects
      \<and> r = join ([CHR 0x0A] @ ''union all'' @ [CHR 0x0A]) selects"
    by auto
  with False sel whr show ?thesis by blast
qed

text \<open>
  C2, as stated, fails: with the column \<open>selected\<close> and no rows the result holds
  \<open>select\<close> twice, and with the cell \<open>where false\<close> the result of a table of one row
  holds \<open>where false\<close>.
\<close>

theorem as_unioned_selects_counterexample:
  "validate_columns \<lparr>rows = [], columns = [(''selected'', ''int'')]\<rparr>
     = Inr \<lparr>rows = [], columns = [(''selected'', ''int'')]\<rparr>
   \<and> as_unioned_selects \<lparr>rows = [], columns = [(''selected'', ''int'')]\<rparr>
     = Inr (''select cast(null as int) as selected'' @ nl @ ''where false'')
   \<and> count_sub ''select'' (''select cast(null as int) as selected'' @ nl @ ''where false'') = 2
   \<and> validate_columns \<lparr>rows = [[(''note'', PyStr ''where false'')]], columns = [(''note'', ''string'')]\<rparr>
     = Inr \<lparr>rows = [[(''note'', PyStr ''where false'')]], columns = [(''note'', ''string'')]\<rparr>
   \<and> as_unioned_selects \<lparr>rows = [[(''note'', PyStr ''where false'')]], columns = [(''note'', ''string'')]\<rparr>
     = Inr (''select cast('' @ [CHR 0x27] @ ''where false'' @ [CHR 0x27] @ '' as string) as note'')
   \<and> sublist ''where false''
       (''select cast('' @ [CHR 0x27] @ ''where false'' @ [CHR 0x27] @ '' as string) as note'')"
  by code_simp

theorem as_unioned_selects_shape_witness:
  "validate_columns users_table = Inr users_table
   \<and> as_unioned_selects users_table
       = Inr (''select cast(1 as int) as id, cast('' @ [CHR 0x27] @ ''foo'' @ [CHR 0x27] @ '' as string) as name''
              @ nl @ ''union all'' @ nl
              @ ''select cast(2 as int) as id, cast('' @ [CHR 0x27] @ ''bar'' @ [CHR 0x27] @ '' as string) as name'')
   \<and> count_sub ''select'' (''select cast(1 as int) as id, cast('' @ [CHR 0x27] @ ''foo'' @ [CHR 0x27] @ '' as string) as name''
              @ nl @ ''union all'' @ nl
              @ ''select cast(2 as int) as id, cast('' @ [CHR 0x27] @ ''bar'' @ [CHR 0x27] @ '' as string) as name'') = 2
   \<and> \<not> sublist ''where false'' (''select cast(1 as int) as id, cast('' @ [CHR 0x27] @ ''foo'' @ [CHR 0x27] @ '' as string) as name''
              @ nl @ ''union all'' @ nl
              @ ''select cast(2 as int) as id, cast('' @ [CHR 0x27] @ ''bar'' @ [CHR 0x27] @ '' as string) as name'')
   \<and> validate_columns no_users_table = Inr no_users_table
   \<and> as_unioned_selects no_users_table
       = Inr (''select cast(null as int) as id, cast(null as string) as name'' @ nl @ ''where false'')
   \<and> suffix ''where false''
       (''select cast(null as int) as id, cast(null as string) as name'' @ nl @ ''where false'')
   \<and> count_sub ''select''
       (''select cast(null as int) as id, cast(null as string) as name'' @ nl @ ''where false'') = 1"
proof -
  let ?r = "''select cast(1 as int) as id, cast('' @ [CHR 0x27] @ ''foo'' @ [CHR 0x27] @ '' as string) as name''
              @ nl @ ''union all'' @ nl
              @ ''select cast(2 as int) as id, cast('' @ [CHR 0x27] @ ''bar'' @ [CHR 0x27] @ '' as string) as name''"
  let ?z = "''select cast(null as int) as id, cast(null as string) as name'' @ nl @ ''where false''"
  have v: "validate_columns users_table = Inr users_table" by code_simp
  have a: "as_unioned_selects users_table = Inr ?r" by code_simp
  have ne: "rows users_table \<noteq> []" by code_simp
  have len: "length (rows users_table) = 2" by code_simp
  have c1: "\<forall>(col, typ)\<in>set (columns users_table). \<not> sublist ''select'' col \<and> \<not> sublist ''select'' typ"
    by code_simp
  have c2: "\<forall>row\<in>set (rows users_table). \<forall>(k, v)\<in>set row.
      case native_to_sql v of Inl e \<Rightarrow> True | Inr e \<Rightarrow> \<not> sublist ''select'' e"
    by code_simp
  have w1: "\<forall>(col, typ)\<in>set (columns users_table).
      \<not> sublist ''where false'' col \<and> \<not> sublist ''where false'' typ"
    by code_simp
  have w2: "\<forall>row\<in>set (rows users_table). \<forall>(k, v)\<in>set row.
      case native_to_sql v of Inl e \<Rightarrow> True | Inr e \<Rightarrow> \<not> sublist ''where false'' e"
    by code_simp
  note rows_shape = as_unioned_selects_shape [OF v a, THEN conjunct2, THEN mp, OF ne]
  from rows_shape [THEN conjunct2, THEN conjunct1, THEN mp, OF conjI [OF c1 c2]] len
  have two: "count_sub ''select'' ?r = 2" by simp
  from rows_shape [THEN conjunct2, THEN conjunct2, THEN mp, OF conjI [OF w1 w2]]
  have none: "\<not> sublist ''where false'' ?r" .
  have v0: "validate_columns no_users_table = Inr no_users_table" by code_simp
  have a0: "as_unioned_selects no_users_table = Inr ?z" by code_simp
  have e0: "rows no_users_table = []" by code_simp
  have c0: "\<forall>(col, typ)\<in>set (columns no_users_table).
      \<not> sublist ''select'' col \<and> \<not> sublist ''select'' typ"
    by code_simp
  note empty_shape = as_unioned_selects_shape [OF v0 a0, THEN conjunct1, THEN mp, OF e0]
  from empty_shape [THEN conjunct2, THEN conjunct1]
  have suf: "suffix ''where false'' ?z" .
  from empty_shape [THEN conjunct2, THEN conjunct2, THEN mp, OF c0]
  have one: "count_sub ''select'' ?z = 1" .
  from v a two none v0 a0 suf one show ?thesis by (intro conjI)
qed

section \<open>Default values of mocks\<close>

text \<open>
  C6: for a mock of type \<open>bool\<close> with no default, of any name, \<open>default_value\<close> raises
  \<open>ValueError\<close>: the factory's text \<open>false\<close> is a name for \<open>ast.literal_eval\<close>, not the
  constant \<open>False\<close>.
\<close>

theorem default_value_bool_raises:
  "default_value \<lparr>mock_name = name, mock_typ = Tbool, mock_default = None, mock_columns = cs\<rparr>
     = Some (Inl ValueError)"
  by (simp add: default_value_def literal_eval_def is_name_def python_keywords_def)

section \<open>Construction of test cases\<close>

text \<open>
  C4: the source declares the scalar mock \<open>delta\<close> of type \<open>int\<close>, the test annotation
  gives no value for it. The loop over the mock schema asks for the empty table of
  \<open>delta\<close>, whose \<open>columns\<close> is \<open>None\<close>, and the construction fails.
\<close>

theorem scalar_mock_fails_construction:
  "mock_schema sample_safe_load scalar_source
     = Inr [(''delta'', \<lparr>mock_name = ''delta'', mock_typ = Tint, mock_default = None,
                          mock_columns = None\<rparr>)]
   \<and> from_yaml_item sample_safe_load scalar_source (''sql-unit.test '' @ dq @ ''t'' @ dq)
        test_only_expected = Inl ValidationError"
  by code_simp

text \<open>The loop over the mock schema leaves every name of the schema in \<open>given\<close>.\<close>

lemma backfill_keys:
  "backfill safe_load source ks g = Inr g' \<Longrightarrow> set ks \<union> set (map fst g) \<subseteq> set (map fst g')"
proof (induction ks arbitrary: g)
  case Nil
  then show ?case by simp
next
  case (Cons k ks)
  show ?case
  proof (cases "k \<in> set (map fst g)")
    case True
    with Cons.prems have "backfill safe_load source ks g = Inr g'" by simp
    from Cons.IH [OF this] True show ?thesis by auto
  next
    case False
    with Cons.prems obtain t where
      "backfill safe_load source ks (AList.update k (Table t) g) = Inr g'"
      by (auto split: sum.splits)
    from Cons.IH [OF this] show ?thesis
      by (auto simp: dom_update)
  qed
qed

text \<open>
  C3: whenever \<open>from_yaml_item\<close> returns a test case, the mock schema of the source
  was read, and every mock it declares is a key of \<open>given\<close>.
\<close>

theorem given_has_every_declared_mock:
  assumes "from_yaml_item safe_load source key val = Inr tc"
  shows "\<exists>ms. mock_schema safe_load source = Inr ms \<and> set (map fst ms) \<subseteq> set (map fst (given tc))"
proof -
  from assms obtain ms g0 g' where ms: "mock_schema safe_load source = Inr ms"
    and bf: "backfill safe_load source (map fst ms) g0 = Inr g'"
    and tc: "given tc = g'"
    unfolding from_yaml_item_def Let_def
    by (auto split: option.splits if_splits pyvalue.splits sum.splits prod.splits)
  from backfill_keys [OF bf] ms tc show ?thesis by auto
qed

theorem given_has_every_declared_mock_witness:
  "from_yaml_item sample_safe_load table_source (''sql-unit.test '' @ dq @ ''t'' @ dq) test_with_given
     = Inr \<lparr>tc_source = table_source, tc_name = ''t'',
            expected = \<lparr>rows = [], columns = [(''id'', ''string'')]\<rparr>,
            given = [(''given '' @ dq @ ''m'' @ dq,
                      Table \<lparr>rows = [[(''id'', PyInt 1)]], columns = [(''id'', ''int'')]\<rparr>),
                     (''m'', Table \<lparr>rows = [], columns = [(''id'', ''int'')]\<rparr>)]\<rparr>
   \<and> (\<exists>ms. mock_schema sample_safe_load table_source = Inr ms
         \<and> set (map fst ms) \<subseteq> {''given '' @ dq @ ''m'' @ dq, ''m''})"
proof -
  let ?tc = "\<lparr>tc_source = table_source, tc_name = ''t'',
            expected = \<lparr>rows = [], columns = [(''id'', ''string'')]\<rparr>,
            given = [(''given '' @ dq @ ''m'' @ dq,
                      Table \<lparr>rows = [[(''id'', PyInt 1)]], columns = [(''id'', ''int'')]\<rparr>),
                     (''m'', Table \<lparr>rows = [], columns = [(''id'', ''int'')]\<rparr>)]\<rparr>"
  have h: "from_yaml_item sample_safe_load table_source (''sql-unit.test '' @ dq @ ''t'' @ dq)
      test_with_given = Inr ?tc"
    by code_simp
  from given_has_every_declared_mock [OF h] h show ?thesis by simp
qed

section \<open>Errors that leave \<open>test_cases\<close>\<close>

lemma rmatch_One_Some:
  "rmatch (One c # r) s = Some (gs, rest) \<Longrightarrow>
     \<exists>x xs gs'. s = x # xs \<and> cls_match c x \<and> gs = [x] # gs' \<and> rmatch r xs = Some (gs', rest)"
  by (cases s) (auto simp: took_one_def split: if_splits)

lemma rmatch_PlusLazy_prefix:
  "rmatch (PlusLazy c # r) s = Some (gs, rest) \<Longrightarrow> gs \<noteq> [] \<and> prefix (hd gs) s"
proof (induction s arbitrary: gs)
  case Nil
  then show ?case by simp
next
  case (Cons x xs)
  show ?case
  proof (cases "took_one x (rmatch r xs)")
    case (Some m)
    with Cons.prems show ?thesis
      by (auto simp: took_one_def split: if_splits)
  next
    case None
    with Cons.prems obtain g gs1 where
      rec: "rmatch (PlusLazy c # r) xs = Some (g # gs1, rest)" and gs: "gs = (x # g) # gs1"
      by (auto simp: took_more_def split: if_splits option.splits list.splits)
    from Cons.IH [OF rec] gs show ?thesis by simp
  qed
qed

lemma match_identifier_prefix:
  assumes "match_identifier key = Some (typ, name)"
  shows "prefix (''sql-unit.'' @ typ) key"
proof -
  from assms obtain gs rest where m: "rmatch SQLUNIT_IDENTIFIER_PATTERN key = Some (gs, rest)"
    and ty: "typ = gs ! 9"
    by (auto simp: match_identifier_def)
  from m obtain xs gs' where key: "key = ''sql-unit.'' @ xs"
    and gs: "gs = [''s'', ''q'', ''l'', ''-'', ''u'', ''n'', ''i'', ''t'', ''.''] @ gs'"
    and tail: "rmatch [PlusLazy NotNewline, One (Lit CHR '' ''), One (Lit CHR 0x22),
       Plus Ident, One (Lit CHR 0x22), Eos] xs = Some (gs', rest)"
    unfolding SQLUNIT_IDENTIFIER_PATTERN_def lits_def
    by (auto dest!: rmatch_One_Some)
  from rmatch_PlusLazy_prefix [OF tail] have "gs' \<noteq> []" "prefix (hd gs') xs" by auto
  moreover from gs ty \<open>gs' \<noteq> []\<close> have "typ = hd gs'" by (simp add: hd_conv_nth nth_append)
  ultimately show ?thesis using key by simp
qed

lemma test_cases_loop_append:
  "test_cases_loop safe_load source (pre @ rest) acc
     = (case test_cases_loop safe_load source pre acc of
          Inl e \<Rightarrow> Inl e | Inr acc' \<Rightarrow> test_cases_loop safe_load source rest acc')"
  by (induction pre arbitrary: acc) (auto split: sum.splits)

lemma test_cases_loop_error:
  "test_cases_loop safe_load source xs acc = Inl e \<Longrightarrow> \<not> is_ValueError e"
  by (induction xs arbitrary: acc) (auto split: sum.splits if_splits)

text \<open>
  C9: a test annotation whose key is a test declaration and whose mapping has no
  \<open>expected\<close> key makes \<open>from_yaml_item\<close> raise \<open>AssertionError\<close>, which is no
  \<open>ValueError\<close>. Where such an entry stands among the annotations of a source,
  \<open>test_cases\<close> returns no list: an error that is no \<open>ValueError\<close> leaves it, and it is
  this \<open>AssertionError\<close> when the entries before raise nothing that leaves the loop.
\<close>

theorem missing_expected_aborts_test_cases:
  assumes "match_identifier key = Some (''test'', name)"
    and "map_of kvs ''expected'' = None"
    and "items (get_comments_obj safe_load (code source)) = Inr (pre @ (key, PyDict kvs) # post)"
  shows "from_yaml_item safe_load source key (PyDict kvs) = Inl AssertionError
    \<and> \<not> is_ValueError AssertionError
    \<and> (\<exists>e. test_cases safe_load source = Inl e \<and> \<not> is_ValueError e)
    \<and> (\<forall>cases. test_cases_loop safe_load source pre [] = Inr cases
          \<longrightarrow> test_cases safe_load source = Inl AssertionError)"
proof -
  have item: "from_yaml_item safe_load source key (PyDict kvs) = Inl AssertionError"
    using assms(1,2) by (simp add: from_yaml_item_def)
  have nv: "\<not> is_ValueError AssertionError"
    by (simp add: is_ValueError_def)
  from match_identifier_prefix [OF assms(1)] have "sublist ''sql-unit.test'' key"
    by (auto simp: prefix_def sublist_def intro: exI [of _ "[]"])
  then have step: "test_cases_loop safe_load source ((key, PyDict kvs) # post) acc = Inl AssertionError" for acc
    using item nv by simp
  have tc: "test_cases safe_load source
      = (case test_cases_loop safe_load source pre [] of Inl e \<Rightarrow> Inl e | Inr acc' \<Rightarrow> Inl AssertionError)"
    by (cases "test_cases_loop safe_load source pre []")
      (simp_all add: test_cases_def assms(3) test_cases_loop_append step del: test_cases_loop.simps)
  have "\<exists>e. test_cases safe_load source = Inl e \<and> \<not> is_ValueError e"
    using tc nv test_cases_loop_error [of safe_load source pre "[]"]
    by (cases "test_cases_loop safe_load source pre []") auto
  moreover have "\<forall>cases. test_cases_loop safe_load source pre [] = Inr cases
          \<longrightarrow> test_cases safe_load source = Inl AssertionError"
    using tc by simp
  ultimately show ?thesis using item nv by blast
qed

theorem missing_expected_aborts_test_cases_witness:
  "match_identifier (''sql-unit.test '' @ dq @ ''t'' @ dq) = Some (''test'', ''t'')
   \<and> map_of [(''given '' @ dq @ ''m'' @ dq, PyInt 1)] ''expected'' = None
   \<and> items (get_comments_obj sample_safe_load (code tests_source))
       = Inr ([(''sql-unit.test '' @ dq @ ''ok'' @ dq,
                PyDict [(''expected'', PyStr (''| x |'' @ nl @ ''|---|''))])]
              @ (''sql-unit.test '' @ dq @ ''t'' @ dq, PyDict [(''given '' @ dq @ ''m'' @ dq, PyInt 1)])
              # [])
   \<and> from_yaml_item sample_safe_load tests_source (''sql-unit.test '' @ dq @ ''t'' @ dq)
        (PyDict [(''given '' @ dq @ ''m'' @ dq, PyInt 1)]) = Inl AssertionError
   \<and> test_cases sample_safe_load tests_source = Inl AssertionError"
proof -
  let ?key = "''sql-unit.test '' @ dq @ ''t'' @ dq"
  let ?kvs = "[(''given '' @ dq @ ''m'' @ dq, PyInt 1)]"
  let ?pre = "[(''sql-unit.test '' @ dq @ ''ok'' @ dq,
                PyDict [(''expected'', PyStr (''| x |'' @ nl @ ''|---|''))])]"
  have h1: "match_identifier ?key = Some (''test'', ''t'')" by code_simp
  have h2: "map_of ?kvs ''expected'' = None" by code_simp
  have h3: "items (get_comments_obj sample_safe_load (code tests_source))
      = Inr (?pre @ (?key, PyDict ?kvs) # [])"
    by code_simp
  have h4: "test_cases_loop sample_safe_load tests_source ?pre []
      = Inr [\<lparr>tc_source = tests_source, tc_name = ''ok'',
               expected = \<lparr>rows = [], columns = [(''x'', ''string'')]\<rparr>, given = []\<rparr>]"
    by code_simp
  from missing_expected_aborts_test_cases [OF h1 h2 h3] h4
  have "from_yaml_item sample_safe_load tests_source ?key (PyDict ?kvs) = Inl AssertionError"
    and "test_cases sample_safe_load tests_source = Inl AssertionError"
    by blast+
  with h1 h2 h3 show ?thesis by blast
qed

section \<open>The compiler\<close>

text \<open>
  C1: the source starts with \<open>with a as (select 1)\<close> and the test case has the table
  mock \<open>m\<close>. The text handed to the template engine is the clause of the mock, a comma,
  and the source from which the whole match \<open>with a as (select 1)\<close> is cut: the first
  CTE of the source is lost.
\<close>

theorem compile_drops_first_cte:
  "from_yaml_item sample_safe_load table_source (''sql-unit.test '' @ dq @ ''t'' @ dq)
       test_only_expected
     = Inr \<lparr>tc_source = table_source, tc_name = ''t'',
            expected = \<lparr>rows = [], columns = [(''id'', ''string'')]\<rparr>,
            given = [(''m'', Table \<lparr>rows = [], columns = [(''id'', ''int'')]\<rparr>)]\<rparr>
   \<and> injected_source_code \<lparr>tc_source = table_source, tc_name = ''t'',
            expected = \<lparr>rows = [], columns = [(''id'', ''string'')]\<rparr>,
            given = [(''m'', Table \<lparr>rows = [], columns = [(''id'', ''int'')]\<rparr>)]\<rparr>
     = Inr (''with m_table as (select cast(null as int) as id'' @ nl @ ''where false),'' @ nl @ nl
            @ drop (length ''with a as (select 1)'') (code table_source))"
  by code_simp

end
